theory Spec2Isabelle
  imports Complex_Main "HOL-Library.Multiset"
begin

section \<open>Sidechain cognitive memory: selection and learning core\<close>

text \<open>
  A shallow embedding of the memory subsystem of the repository
  (\<^verbatim>\<open>src/cognitive/memory\<close>): the tokenizer, BM25, the signal calculators, the
  TrueSkill-style rating update, the diversity selector, the selector and the learning
  loop.

  Conventions of the embedding.
  \<^item> A JavaScript \<^verbatim>\<open>number\<close> that carries a measurement (scores, mu, sigma, weights)
    is a \<^typ>\<open>real\<close>: rounding and the infinities of IEEE doubles are outside the model,
    and so is a NaN that is handed in as a number. A number that is a count or a length
    is a \<^typ>\<open>nat\<close>, a time in milliseconds is an \<^typ>\<open>int\<close>.
  \<^item> The one NaN that the code makes from an input of the declared type is the time of
    a timestamp string that is no date. The numbers it reaches (the recency signal, the
    composite total, the score of a candidate, a sampling weight) are of type
    \<^typ>\<open>real option\<close>, with \<open>None\<close> for NaN: arithmetic with NaN gives NaN, and
    every comparison with NaN is false.
  \<^item> \<^verbatim>\<open>Date.now()\<close>, \<^verbatim>\<open>crypto.randomUUID()\<close> and \<^verbatim>\<open>Math.random()\<close> are inputs of the
    functions that call them.
  \<^item> An interface becomes a \<^theory_text>\<open>record\<close>; an object spread \<^verbatim>\<open>{...x, f: v}\<close> is a
    record update, which keeps every other field (also those of an extension).
\<close>

subsection \<open>Types (types.ts)\<close>

text \<open>The union type \<^verbatim>\<open>-1 | 0 | 1\<close> of rewards.\<close>

datatype reward = Negative | Neutral | Positive

fun rewardValue :: "reward \<Rightarrow> real" where
  "rewardValue Negative = - 1"
| "rewardValue Neutral = 0"
| "rewardValue Positive = 1"

record MemoryRating =
  memoryId :: string
  kernelId :: string
  mu :: real
  sigma :: real
  uses :: nat
  lastUpdatedAt :: int

subsection \<open>Rating update (trueskill.ts)\<close>

definition SIGMA_OBSERVATION :: real where
  "SIGMA_OBSERVATION = 1.0"

definition SIGMA_DRIFT :: real where
  "SIGMA_DRIFT = 0.01"

text \<open>
  The local constants of \<^verbatim>\<open>updateRating\<close>, one definition each, in the order of the
  source: \<^verbatim>\<open>variance\<close>, \<^verbatim>\<open>observationVariance\<close>, the Kalman gain \<^verbatim>\<open>K\<close>, \<^verbatim>\<open>newMu\<close> and
  \<^verbatim>\<open>newSigma\<close>.
\<close>

definition variance :: "'a MemoryRating_scheme \<Rightarrow> real" where
  "variance currentRating = sigma currentRating * sigma currentRating"

definition observationVariance :: real where
  "observationVariance = SIGMA_OBSERVATION * SIGMA_OBSERVATION"

definition kalmanGain :: "'a MemoryRating_scheme \<Rightarrow> real" where
  "kalmanGain currentRating =
     variance currentRating / (variance currentRating + observationVariance)"

definition newMu :: "'a MemoryRating_scheme \<Rightarrow> reward \<Rightarrow> real" where
  "newMu currentRating rw =
     mu currentRating + kalmanGain currentRating * (rewardValue rw - mu currentRating)"

definition newSigma :: "'a MemoryRating_scheme \<Rightarrow> real" where
  "newSigma currentRating =
     sqrt (max 0.000001 ((1 - kalmanGain currentRating) * variance currentRating))
       + SIGMA_DRIFT"

text \<open>\<^verbatim>\<open>updateRating(currentRating, reward)\<close>; the third argument is what \<^verbatim>\<open>Date.now()\<close> returns.\<close>

definition updateRating ::
  "'a MemoryRating_scheme \<Rightarrow> reward \<Rightarrow> int \<Rightarrow> 'a MemoryRating_scheme" where
  "updateRating currentRating rw now =
     currentRating\<lparr> mu := newMu currentRating rw,
                     sigma := max 0.1 (min 2.0 (newSigma currentRating)),
                     uses := uses currentRating + 1,
                     lastUpdatedAt := now \<rparr>"

text \<open>\<^verbatim>\<open>initializeRating(memoryId, kernelId)\<close>; the third argument is \<^verbatim>\<open>Date.now()\<close>.\<close>

definition initializeRating :: "string \<Rightarrow> string \<Rightarrow> int \<Rightarrow> MemoryRating" where
  "initializeRating mId kId now =
     \<lparr> memoryId = mId, kernelId = kId, mu = 0, sigma = 1.0, uses = 0,
       lastUpdatedAt = now \<rparr>"

text \<open>
  A finite sequence of updates: each element is the reward and the clock reading of one
  call of \<^verbatim>\<open>updateRating\<close>, applied from left to right.
\<close>

definition updateMany ::
  "'a MemoryRating_scheme \<Rightarrow> (reward \<times> int) list \<Rightarrow> 'a MemoryRating_scheme" where
  "updateMany r steps = foldl (\<lambda>acc (rw, now). updateRating acc rw now) r steps"

subsection \<open>Objects on a heap\<close>

text \<open>
  For the question whether \<^verbatim>\<open>updateRating\<close> writes to the object it is given, ratings
  live on a heap: a list of objects, an object's address being its index. The object
  literal of \<^verbatim>\<open>updateRating\<close> allocates a new object at the next free address; the
  function performs no assignment to a property of \<^verbatim>\<open>currentRating\<close>. A dangling
  address gives \<open>None\<close>.
\<close>

type_synonym addr = nat
type_synonym heap = "MemoryRating list"

definition updateRatingH :: "heap \<Rightarrow> addr \<Rightarrow> reward \<Rightarrow> int \<Rightarrow> (heap \<times> addr) option" where
  "updateRatingH h a rw now =
     (if a < length h then Some (h @ [updateRating (h ! a) rw now], length h) else None)"

subsection \<open>Tokenizer (tokenizer.ts)\<close>

text \<open>
  Strings are lists of characters with codes 0 to 255, read as the code units of a
  JavaScript string (the Latin-1 range). On this range \<^verbatim>\<open>toLowerCase\<close> adds 32 to the
  codes of \<open>A\<close> to \<open>Z\<close> and of the capital letters U+00C0 to U+00DE (U+00D7, the
  multiplication sign, is no letter), and the class \<^verbatim>\<open>\s\<close> holds tab, line feed,
  vertical tab, form feed, carriage return, space and the no-break space U+00A0.
\<close>

definition toLowerChar :: "char \<Rightarrow> char" where
  "toLowerChar c =
     (let n = (of_char c :: nat)
      in if (65 \<le> n \<and> n \<le> 90) \<or> (192 \<le> n \<and> n \<le> 222 \<and> n \<noteq> 215)
         then char_of (n + 32) else c)"

definition toLowerCase :: "string \<Rightarrow> string" where
  "toLowerCase s = map toLowerChar s"

text \<open>
  The character class of the \<^verbatim>\<open>replace\<close> in \<^verbatim>\<open>tokenize\<close>, in the order of the regular
  expression: \<^verbatim>\<open>` ~ ! @ # $ % ^ & * ( ) - _ = + [ ] { } ; : ' " , . < > / ? \ |\<close>.
\<close>

definition PUNCTUATION :: "char list" where
  "PUNCTUATION =
     [CHR 0x60, CHR ''~'', CHR ''!'', CHR 0x40, CHR ''#'', CHR ''$'', CHR ''%'', CHR ''^'',
      CHR ''&'', CHR ''*'', CHR ''('', CHR '')'', CHR ''-'', CHR ''_'', CHR ''='', CHR ''+'',
      CHR ''['', CHR '']'', CHR 0x7B, CHR 0x7D, CHR '';'', CHR '':'', CHR 0x27, CHR 0x22,
      CHR '','', CHR ''.'', CHR ''<'', CHR ''>'', CHR ''/'', CHR ''?'', CHR 0x5C, CHR ''|'']"

definition replacePunctuation :: "string \<Rightarrow> string" where
  "replacePunctuation s = map (\<lambda>c. if c \<in> set PUNCTUATION then CHR '' '' else c) s"

definition isWhitespace :: "char \<Rightarrow> bool" where
  "isWhitespace c = ((of_char c :: nat) \<in> set [9, 10, 11, 12, 13, 32, 160])"

text \<open>
  \<^verbatim>\<open>split(/\s+/)\<close>: the string is cut at every maximal run of whitespace. A run at the
  start or at the end leaves an empty string there, and the empty string splits into one
  empty string.
\<close>

function splitWhitespace :: "string \<Rightarrow> string list" where
  "splitWhitespace [] = [[]]"
| "splitWhitespace (c # cs) =
     (if isWhitespace c then [] # splitWhitespace (dropWhile isWhitespace cs)
      else (case splitWhitespace cs of
              [] \<Rightarrow> [[c]]
            | w # ws \<Rightarrow> (c # w) # ws))"
  by pat_completeness auto
termination
  by (relation "measure length") (auto intro: le_imp_less_Suc length_dropWhile_le)

definition STOP_WORDS :: "string list" where
  "STOP_WORDS =
     [''the'', ''a'', ''an'', ''and'', ''or'', ''but'', ''of'', ''to'', ''in'', ''on'', ''for'',
      ''with'', ''is'', ''it'', ''as'', ''at'', ''by'', ''be'', ''are'', ''was'', ''were'',
      ''this'', ''that'', ''from'', ''we'', ''you'', ''they'', ''i'', ''me'', ''my'', ''your'']"

definition tokenize :: "string \<Rightarrow> string list" where
  "tokenize text =
     filter (\<lambda>t. t \<noteq> [] \<and> t \<notin> set STOP_WORDS \<and> length t \<ge> 2)
       (splitWhitespace (replacePunctuation (toLowerCase text)))"

text \<open>\<^verbatim>\<open>Array.prototype.join(sep)\<close>.\<close>

fun join :: "string list \<Rightarrow> string \<Rightarrow> string" where
  "join [] sep = []"
| "join [t] sep = t"
| "join (t # ts) sep = t @ sep @ join ts sep"

subsection \<open>BM25 (bm25.ts)\<close>

definition BM25_K1 :: real where
  "BM25_K1 = 1.2"

definition BM25_B :: real where
  "BM25_B = 0.75"

text \<open>\<^verbatim>\<open>x || 0\<close> for the result of \<^verbatim>\<open>Map.get\<close> on a map of counts.\<close>

fun orZero :: "nat option \<Rightarrow> nat" where
  "orZero None = 0"
| "orZero (Some n) = n"

text \<open>
  The term-frequency map of \<^verbatim>\<open>calculateBM25\<close> and the document-frequency map of
  \<^verbatim>\<open>buildDocumentFrequencies\<close> are built by the same loop body:
  \<^verbatim>\<open>m.set(token, (m.get(token) || 0) + 1)\<close>.
\<close>

definition increment :: "string \<Rightarrow> (string \<rightharpoonup> nat) \<Rightarrow> (string \<rightharpoonup> nat)" where
  "increment token m = m(token \<mapsto> orZero (m token) + 1)"

definition termFrequencies :: "string list \<Rightarrow> (string \<rightharpoonup> nat)" where
  "termFrequencies documentTokens = fold increment documentTokens Map.empty"

text \<open>
  \<^verbatim>\<open>[...new Set(xs)]\<close>: a \<^verbatim>\<open>Set\<close> keeps its elements in insertion order, and adding an
  element it already holds changes nothing.
\<close>

definition setAdd :: "'a \<Rightarrow> 'a list \<Rightarrow> 'a list" where
  "setAdd x s = (if x \<in> set s then s else s @ [x])"

definition newSet :: "'a list \<Rightarrow> 'a list" where
  "newSet xs = fold setAdd xs []"

text \<open>
  The body of the loop over the unique query terms; both \<^verbatim>\<open>continue\<close> statements leave
  the score as it is.
\<close>

definition bm25Step ::
  "(string \<rightharpoonup> nat) \<Rightarrow> (string \<rightharpoonup> nat) \<Rightarrow> nat \<Rightarrow> nat \<Rightarrow> real \<Rightarrow> string \<Rightarrow> real \<Rightarrow> real" where
  "bm25Step tf documentFrequencies totalDocuments docLength avgDocLength term score =
     (let termFreq = orZero (tf term) in
      if termFreq = 0 then score
      else
        let df = orZero (documentFrequencies term) in
        if df = 0 then score
        else
          let idf = ln ((real totalDocuments - real df + 0.5) / (real df + 0.5) + 1);
              numerator = real termFreq * (BM25_K1 + 1);
              denominator = real termFreq
                + BM25_K1 * (1 - BM25_B + BM25_B * (real docLength / max 1 avgDocLength))
          in score + idf * (numerator / max 0.000001 denominator))"

text \<open>What one unique query term adds to the score.\<close>

definition bm25Term ::
  "(string \<rightharpoonup> nat) \<Rightarrow> (string \<rightharpoonup> nat) \<Rightarrow> nat \<Rightarrow> nat \<Rightarrow> real \<Rightarrow> string \<Rightarrow> real" where
  "bm25Term tf df N docLength avg term = bm25Step tf df N docLength avg term 0"

definition calculateBM25 ::
  "string list \<Rightarrow> string list \<Rightarrow> (string \<rightharpoonup> nat) \<Rightarrow> nat \<Rightarrow> real \<Rightarrow> real" where
  "calculateBM25 queryTokens documentTokens documentFrequencies totalDocuments avgDocLength =
     (if length queryTokens = 0 \<or> length documentTokens = 0 then 0
      else
        let tf = termFrequencies documentTokens;
            docLength = length documentTokens;
            uniqueQuery = newSet queryTokens
        in fold (bm25Step tf documentFrequencies totalDocuments docLength avgDocLength)
             uniqueQuery 0)"

text \<open>\<^verbatim>\<open>buildDocumentFrequencies\<close>, on the contents of the memories.\<close>

definition buildDocumentFrequencies :: "string list \<Rightarrow> (string \<rightharpoonup> nat)" where
  "buildDocumentFrequencies contents =
     fold (\<lambda>content df. fold increment (newSet (tokenize content)) df) contents Map.empty"

subsection \<open>Memories, kernels and signals (types.ts, selector.ts)\<close>

text \<open>
  Field names that several interfaces share carry a prefix here, since the fields of all
  records live in one name space: \<open>m_\<close> for \<^verbatim>\<open>MemoryChunk\<close>, \<open>k_\<close> for \<^verbatim>\<open>PromptKernel\<close>,
  \<open>s_\<close> for the \<^verbatim>\<open>signals\<close> object.
\<close>

record MemoryChunk =
  m_id :: string
  m_content :: string
  m_tags :: "string list"
  m_importance :: real
  m_timestamp :: string
  m_associations :: "string list option"
  m_episodeId :: "string option"

record PromptKernel =
  k_id :: string
  k_name :: string
  k_prompt :: string
  k_keywords :: "string list"

record Signals =
  s_importance :: real
  s_tagRelevance :: real
  s_lexicalScore :: real
  s_recency :: "real option"
  s_centrality :: real
  s_thompson :: real

subsection \<open>Signal calculators (signals.ts)\<close>

text \<open>
  The parameters are arrays by their declared types, so the tests \<^verbatim>\<open>!memoryTags\<close>,
  \<^verbatim>\<open>!kernelKeywords\<close> and \<^verbatim>\<open>!memory.tags\<close> of the source (true for \<^verbatim>\<open>undefined\<close> and
  \<^verbatim>\<open>null\<close> only; an empty array is truthy) are never true and do not appear. Only
  \<^verbatim>\<open>associations\<close> is declared optional.
\<close>

definition normalizeImportance :: "real \<Rightarrow> real" where
  "normalizeImportance importance = max 0 (min 1 ((importance - 1) / 9))"

definition calculateTagRelevance :: "string list \<Rightarrow> string list \<Rightarrow> real" where
  "calculateTagRelevance memoryTags kernelKeywords =
     (if length memoryTags = 0 \<or> length kernelKeywords = 0 then 0
      else
        let memoryTagSet = newSet (map toLowerCase memoryTags);
            matches = fold (\<lambda>keyword matches.
                        if toLowerCase keyword \<in> set memoryTagSet then matches + 1 else matches)
                      kernelKeywords (0::nat)
        in real matches / real (length kernelKeywords))"

text \<open>
  \<^verbatim>\<open>calculateRecencyBoost(timestamp, halfLifeDays)\<close>. The function \<open>parseDate\<close> stands for
  \<^verbatim>\<open>new Date(timestamp).getTime()\<close>: the time of the date in milliseconds, or \<open>None\<close> for
  the NaN of a string that is no date. \<open>now\<close> is what \<^verbatim>\<open>Date.now()\<close> returns. With a NaN
  time, \<^verbatim>\<open>now - memoryTime\<close>, \<^verbatim>\<open>Math.max(0, NaN)\<close> and \<^verbatim>\<open>Math.exp(NaN)\<close> are NaN.
\<close>

definition calculateRecencyBoost ::
  "(string \<Rightarrow> int option) \<Rightarrow> string \<Rightarrow> real \<Rightarrow> int \<Rightarrow> real option" where
  "calculateRecencyBoost parseDate timestamp halfLifeDays now =
     (let HALF_LIFE = halfLifeDays * 24 * 3600 * 1000;
          memoryTime = parseDate timestamp
      in case memoryTime of
           None \<Rightarrow> None
         | Some t \<Rightarrow>
             let age = max 0 (real_of_int (now - t))
             in Some (exp (- age / HALF_LIFE)))"

definition calculateCentrality :: "'a MemoryChunk_scheme \<Rightarrow> string list \<Rightarrow> real" where
  "calculateCentrality memory kernelKeywords =
     (let degree = (case m_associations memory of None \<Rightarrow> 0 | Some a \<Rightarrow> length a);
          keywordSet = newSet (map toLowerCase kernelKeywords);
          hasAlignment = list_ex (\<lambda>t. toLowerCase t \<in> set keywordSet) (m_tags memory);
          spin = (if hasAlignment then 1.25 else 1.0)
      in min 1 ((real degree * spin) / 10))"

subsection \<open>Composite utility (selector.ts)\<close>

definition W_IMPORTANCE :: real where "W_IMPORTANCE = 0.10"
definition W_TAG_RELEVANCE :: real where "W_TAG_RELEVANCE = 0.25"
definition W_LEXICAL :: real where "W_LEXICAL = 0.30"
definition W_RECENCY :: real where "W_RECENCY = 0.10"
definition W_CENTRALITY :: real where "W_CENTRALITY = 0.10"
definition W_THOMPSON :: real where "W_THOMPSON = 0.15"

text \<open>The mapping of the Thompson sample into \<open>[0,1]\<close> inside the weighted sum.\<close>

definition thompsonMapped :: "real \<Rightarrow> real" where
  "thompsonMapped thompsonScore = max 0 (min 1 ((thompsonScore + 1) / 2))"

text \<open>
  \<^verbatim>\<open>calculateUtility(memory, kernel, bm25Score, thompsonScore)\<close> returns the pair of
  \<^verbatim>\<open>total\<close> and \<^verbatim>\<open>signals\<close>; \<open>parseDate\<close> and \<open>now\<close> are those of the recency signal.
  The weighted sum is NaN when its recency summand is.
\<close>

definition calculateUtility ::
  "(string \<Rightarrow> int option) \<Rightarrow> 'a MemoryChunk_scheme \<Rightarrow> 'b PromptKernel_scheme \<Rightarrow> real \<Rightarrow> real
     \<Rightarrow> int \<Rightarrow> real option \<times> Signals" where
  "calculateUtility parseDate memory kern bm25Score thompsonScore now =
     (let importance = normalizeImportance (m_importance memory);
          tagRelevance = calculateTagRelevance (m_tags memory) (k_keywords kern);
          recency = calculateRecencyBoost parseDate (m_timestamp memory) 14 now;
          centrality = calculateCentrality memory (k_keywords kern);
          lexical = (if bm25Score > 0 then ln (1 + bm25Score) / 5 else 0);
          total = (case recency of
                     None \<Rightarrow> None
                   | Some recencyValue \<Rightarrow>
                       Some (W_IMPORTANCE * importance
                           + W_TAG_RELEVANCE * tagRelevance
                           + W_LEXICAL * lexical
                           + W_RECENCY * recencyValue
                           + W_CENTRALITY * centrality
                           + W_THOMPSON * thompsonMapped thompsonScore))
      in (total,
          \<lparr> s_importance = importance, s_tagRelevance = tagRelevance,
            s_lexicalScore = lexical, s_recency = recency, s_centrality = centrality,
            s_thompson = thompsonScore \<rparr>))"

text \<open>The lexical signal of \<^verbatim>\<open>calculateUtility\<close> on its own.\<close>

definition lexicalOf :: "real \<Rightarrow> real" where
  "lexicalOf bm25Score = (if bm25Score > 0 then ln (1 + bm25Score) / 5 else 0)"

subsection \<open>Shingles and Jaccard similarity (tokenizer.ts)\<close>

text \<open>
  A \<^verbatim>\<open>Set<string>\<close> is the list of its elements in insertion order. The loop of
  \<^verbatim>\<open>shingles\<close> runs over the indices \<open>i\<close> with \<open>i + n \<le> length tokens\<close>.
\<close>

definition shingles :: "string list \<Rightarrow> nat \<Rightarrow> string list" where
  "shingles tokens n =
     fold (\<lambda>i result. setAdd (join (take n (drop i tokens)) '' '') result)
       [0 ..< Suc (length tokens) - n] []"

definition jaccardSimilarity :: "string \<Rightarrow> string \<Rightarrow> real" where
  "jaccardSimilarity textA textB =
     (let shinglesA = shingles (tokenize textA) 3;
          shinglesB = shingles (tokenize textB) 3;
          intersection = length (filter (\<lambda>x. x \<in> set shinglesB) shinglesA);
          union = real (length shinglesA) + real (length shinglesB) - real intersection
      in if union > 0 then real intersection / union else 0)"

subsection \<open>Diversity selector (diversity.ts)\<close>

text \<open>
  The score of a \<^verbatim>\<open>ScoredItem\<close> has the type \<open>'n\<close>: \<^typ>\<open>real\<close> for a number, and
  \<^typ>\<open>real option\<close> where the score can be NaN. \<^verbatim>\<open>selectByMMR\<close> is modelled on scores
  that are numbers.
\<close>

record 'n ScoredItem =
  i_id :: string
  i_content :: string
  i_score :: 'n

text \<open>
  \<^verbatim>\<open>maxSimilarity\<close> of a candidate: the largest Jaccard similarity to a selected item, 0
  when nothing is selected yet.
\<close>

definition maxSimilarity ::
  "('n, 'a) ScoredItem_scheme list \<Rightarrow> ('n, 'a) ScoredItem_scheme \<Rightarrow> real" where
  "maxSimilarity selected candidate =
     (case map (\<lambda>s. jaccardSimilarity (i_content candidate) (i_content s)) selected of
        [] \<Rightarrow> 0
      | x # xs \<Rightarrow> fold max xs x)"

definition mmrScore ::
  "real \<Rightarrow> (real, 'a) ScoredItem_scheme list \<Rightarrow> (real, 'a) ScoredItem_scheme \<Rightarrow> real" where
  "mmrScore lam selected candidate =
     lam * i_score candidate - (1 - lam) * maxSimilarity selected candidate"

text \<open>
  The inner \<^verbatim>\<open>for\<close> loop of \<^verbatim>\<open>selectByMMR\<close>. Its state is \<^verbatim>\<open>bestIdx\<close> and \<^verbatim>\<open>bestScore\<close>;
  \<open>None\<close> stands for the initial \<^verbatim>\<open>-Infinity\<close>, which every score exceeds.
\<close>

definition bestStep ::
  "real \<Rightarrow> (real, 'a) ScoredItem_scheme list \<Rightarrow> (real, 'a) ScoredItem_scheme list \<Rightarrow> nat
     \<Rightarrow> nat \<times> real option \<Rightarrow> nat \<times> real option" where
  "bestStep lam selected remaining i best =
     (let candidate = remaining ! i;
          mmr = mmrScore lam selected candidate
      in if (case snd best of None \<Rightarrow> True | Some bestScore \<Rightarrow> mmr > bestScore)
         then (i, Some mmr) else best)"

definition findBest ::
  "real \<Rightarrow> (real, 'a) ScoredItem_scheme list \<Rightarrow> (real, 'a) ScoredItem_scheme list \<Rightarrow> nat" where
  "findBest lam selected remaining =
     fst (fold (bestStep lam selected remaining) [0 ..< length remaining] (0, None))"

text \<open>\<^verbatim>\<open>xs.splice(idx, 1)\<close> leaves \<open>xs\<close> without its element at \<open>idx\<close>.\<close>

definition removeAt :: "nat \<Rightarrow> 'b list \<Rightarrow> 'b list" where
  "removeAt idx xs = take idx xs @ drop (Suc idx) xs"

text \<open>The \<^verbatim>\<open>while\<close> loop of \<^verbatim>\<open>selectByMMR\<close>.\<close>

function mmrLoop ::
  "real \<Rightarrow> nat \<Rightarrow> (real, 'a) ScoredItem_scheme list \<Rightarrow> (real, 'a) ScoredItem_scheme list
     \<Rightarrow> (real, 'a) ScoredItem_scheme list" where
  "mmrLoop lam limit selected remaining =
     (if length remaining > 0 \<and> length selected < limit
      then
        let bestIdx = findBest lam selected remaining
        in mmrLoop lam limit (selected @ [remaining ! bestIdx]) (removeAt bestIdx remaining)
      else selected)"
  by pat_completeness auto
termination
  by (relation "measure (\<lambda>(lam, limit, selected, remaining). limit - length selected)") auto

declare mmrLoop.simps [simp del]

text \<open>
  \<^verbatim>\<open>selectByMMR(candidates, lambda, limit)\<close>. \<^verbatim>\<open>Array.prototype.sort\<close> is stable, and the
  comparator \<^verbatim>\<open>b.score - a.score\<close> orders by descending score: the stable sort on the
  key \<open>- score\<close>. The limit is a number of items.
\<close>

definition selectByMMR ::
  "(real, 'a) ScoredItem_scheme list \<Rightarrow> real \<Rightarrow> nat \<Rightarrow> (real, 'a) ScoredItem_scheme list" where
  "selectByMMR candidates lam limit =
     mmrLoop lam limit [] (sort_key (\<lambda>c. - i_score c) candidates)"

subsection \<open>Random numbers and Thompson sampling (trueskill.ts)\<close>

text \<open>
  \<^verbatim>\<open>Math.random()\<close> returns a number in \<open>[0, 1)\<close>. The random source of a run is the
  sequence \<open>rng\<close> of the values that the successive calls return; a function that draws
  takes the position \<open>pos\<close> of its first draw.
\<close>

typedef randomNumber = "{x::real. 0 \<le> x \<and> x < 1}"
  by (rule exI [of _ 0]) simp

setup_lifting type_definition_randomNumber

text \<open>\<^verbatim>\<open>Math.random() || 1e-9\<close>: of the numbers in \<open>[0, 1)\<close> only 0 is falsy.\<close>

definition orTiny :: "real \<Rightarrow> real" where
  "orTiny u = (if u = 0 then 0.000000001 else u)"

text \<open>The Box-Muller transform of \<^verbatim>\<open>thompsonSample\<close>: the standard normal draw \<^verbatim>\<open>z\<close>.\<close>

definition boxMuller :: "real \<Rightarrow> real \<Rightarrow> real" where
  "boxMuller u1 u2 = sqrt (- 2 * ln u1) * cos (2 * pi * u2)"

text \<open>\<^verbatim>\<open>thompsonSample(mu, sigma)\<close> makes two draws, at \<open>pos\<close> and \<open>pos + 1\<close>.\<close>

definition thompsonSample :: "real \<Rightarrow> real \<Rightarrow> (nat \<Rightarrow> randomNumber) \<Rightarrow> nat \<Rightarrow> real" where
  "thompsonSample mu0 sigma0 rng pos =
     (let u1 = orTiny (Rep_randomNumber (rng pos));
          u2 = orTiny (Rep_randomNumber (rng (pos + 1)));
          z = boxMuller u1 u2
      in mu0 + sigma0 * z)"

subsection \<open>Weighted sampling (diversity.ts)\<close>

text \<open>
  The weights of a sampling can be NaN. The operations of the loop on such numbers:
  \<^verbatim>\<open>Math.max(0, x)\<close>, \<^verbatim>\<open>x + y\<close>, \<^verbatim>\<open>x - y\<close>, \<^verbatim>\<open>u * x\<close> for a number \<open>u\<close>, and \<^verbatim>\<open>x > y\<close>.
\<close>

definition nanMax0 :: "real option \<Rightarrow> real option" where
  "nanMax0 x = (case x of None \<Rightarrow> None | Some a \<Rightarrow> Some (max 0 a))"

definition nanPlus :: "real option \<Rightarrow> real option \<Rightarrow> real option" where
  "nanPlus x y = (case (x, y) of (Some a, Some b) \<Rightarrow> Some (a + b) | _ \<Rightarrow> None)"

definition nanMinus :: "real option \<Rightarrow> real option \<Rightarrow> real option" where
  "nanMinus x y = (case (x, y) of (Some a, Some b) \<Rightarrow> Some (a - b) | _ \<Rightarrow> None)"

definition nanTimes :: "real \<Rightarrow> real option \<Rightarrow> real option" where
  "nanTimes u x = (case x of None \<Rightarrow> None | Some a \<Rightarrow> Some (u * a))"

definition nanGreater :: "real option \<Rightarrow> real option \<Rightarrow> bool" where
  "nanGreater x y = (case (x, y) of (Some a, Some b) \<Rightarrow> a > b | _ \<Rightarrow> False)"

text \<open>
  The inner \<^verbatim>\<open>while\<close> loop of \<^verbatim>\<open>weightedSample\<close>, on the weights from index \<open>idx\<close> on:
  it returns the final \<open>idx\<close>.
\<close>

fun scanWeights :: "real option list \<Rightarrow> real option \<Rightarrow> nat \<Rightarrow> nat" where
  "scanWeights [] random idx = idx"
| "scanWeights (wi # rest) random idx =
     (if nanGreater random (nanMax0 wi)
      then scanWeights rest (nanMinus random (nanMax0 wi)) (idx + 1)
      else idx)"

text \<open>
  The outer loop, with the state \<^verbatim>\<open>result\<close>, \<^verbatim>\<open>pool\<close>, \<^verbatim>\<open>w\<close> and the position in the
  random source. Each round makes one draw. A NaN total is not \<^verbatim>\<open>=== 0\<close>.
\<close>

function sampleLoop ::
  "(nat \<Rightarrow> randomNumber) \<Rightarrow> nat \<Rightarrow> 'b list \<Rightarrow> 'b list \<Rightarrow> real option list \<Rightarrow> nat \<Rightarrow> 'b list" where
  "sampleLoop rng k result pool w pos =
     (if length result < k \<and> length pool > 0
      then
        let totalWeight = foldl (\<lambda>sum weight. nanPlus sum (nanMax0 weight)) (Some 0) w
        in if totalWeight = Some 0
           then
             let idx = nat \<lfloor>Rep_randomNumber (rng pos) * real (length pool)\<rfloor>
             in sampleLoop rng k (result @ [pool ! idx]) (removeAt idx pool) (removeAt idx w)
                  (pos + 1)
           else
             let random = nanTimes (Rep_randomNumber (rng pos)) totalWeight;
                 idx0 = scanWeights w random 0;
                 idx = (if idx0 \<ge> length pool then length pool - 1 else idx0)
             in sampleLoop rng k (result @ [pool ! idx]) (removeAt idx pool) (removeAt idx w)
                  (pos + 1)
      else result)"
  by pat_completeness auto
termination
  by (relation "measure (\<lambda>(rng, k, result, pool, w, pos). k - length result)") auto

declare sampleLoop.simps [simp del]

definition weightedSample ::
  "'b list \<Rightarrow> real option list \<Rightarrow> nat \<Rightarrow> (nat \<Rightarrow> randomNumber) \<Rightarrow> nat \<Rightarrow> 'b list" where
  "weightedSample items weights k rng pos = sampleLoop rng k [] items weights pos"

subsection \<open>Selector (selector.ts)\<close>

text \<open>
  Modelled from the spec: \<^verbatim>\<open>makeRatingKey\<close> of \<^verbatim>\<open>./utils\<close>, which is not among the
  sources. The specification gives the rating key as \<^verbatim>\<open>`${memoryId}::${kernelId}`\<close>.
\<close>

definition makeRatingKey :: "string \<Rightarrow> string \<Rightarrow> string" where
  "makeRatingKey mId kId = mId @ ''::'' @ kId"

record SelectionOptions =
  queryTerms :: "string list option"
  bypassTagFilter :: "bool option"

record 'n ScoredMemory = "'n ScoredItem" +
  i_tags :: "string list"
  i_memory :: MemoryChunk
  i_signals :: Signals

record SelectedMemory =
  sel_memoryId :: string
  sel_content :: string
  sel_tags :: "string list"
  sel_score :: "real option"
  sel_signals :: Signals

text \<open>
  \<^verbatim>\<open>selectByMMR\<close> on items whose score can be NaN. When every score is a number it is
  \<^verbatim>\<open>selectByMMR\<close> as modelled above (\<open>numberScore\<close> and \<open>nanScore\<close> change the type of the
  score field and nothing else). With a NaN score the comparator \<^verbatim>\<open>b.score - a.score\<close>
  returns NaN; it is then no consistent comparison function, and ECMAScript leaves the
  order in which \<^verbatim>\<open>Array.prototype.sort\<close> puts two or more elements to the implementation:
  the model gives no list. A single candidate with a NaN score is not reordered; its MMR
  score is NaN, which is not greater than \<^verbatim>\<open>-Infinity\<close>, so \<^verbatim>\<open>bestIdx\<close> stays 0 and the
  loop takes the candidate when the limit allows one item.
\<close>

datatype 'a outcome = Result 'a | ImplementationDefined

definition numberScore ::
  "(real option, 'a) ScoredItem_scheme \<Rightarrow> (real, 'a) ScoredItem_scheme option" where
  "numberScore item =
     (case i_score item of
        None \<Rightarrow> None
      | Some score \<Rightarrow>
          Some \<lparr> i_id = i_id item, i_content = i_content item, i_score = score,
                 \<dots> = ScoredItem.more item \<rparr>)"

definition nanScore :: "(real, 'a) ScoredItem_scheme \<Rightarrow> (real option, 'a) ScoredItem_scheme" where
  "nanScore item =
     \<lparr> i_id = i_id item, i_content = i_content item, i_score = Some (i_score item),
       \<dots> = ScoredItem.more item \<rparr>"

definition selectByMMR_NaN ::
  "(real option, 'a) ScoredItem_scheme list \<Rightarrow> real \<Rightarrow> nat
     \<Rightarrow> (real option, 'a) ScoredItem_scheme list outcome" where
  "selectByMMR_NaN candidates lam limit =
     (case those (map numberScore candidates) of
        Some numbered \<Rightarrow> Result (map nanScore (selectByMMR numbered lam limit))
      | None \<Rightarrow>
          if length candidates \<le> 1 then Result (take limit candidates)
          else ImplementationDefined)"

text \<open>The pre-filter: the candidates of a selection.\<close>

definition candidatesOf ::
  "MemoryChunk list \<Rightarrow> 'b PromptKernel_scheme \<Rightarrow> SelectionOptions \<Rightarrow> MemoryChunk list" where
  "candidatesOf memories kern options =
     (let bypass = (case bypassTagFilter options of None \<Rightarrow> False | Some b \<Rightarrow> b);
          keywordSet = newSet (map toLowerCase (k_keywords kern));
          shouldFilterByTags = (length (k_keywords kern) > 0 \<and> \<not> bypass)
      in if shouldFilterByTags
         then filter (\<lambda>m. list_ex (\<lambda>t. toLowerCase t \<in> set keywordSet) (m_tags m)) memories
         else memories)"

definition avgDocLengthOf :: "MemoryChunk list \<Rightarrow> real" where
  "avgDocLengthOf candidates =
     real (foldl (\<lambda>sum m. sum + length (tokenize (m_content m))) 0 candidates)
       / real (length candidates)"

text \<open>The query of a selection: \<^verbatim>\<open>queryParts.join(' ')\<close>, tokenized.\<close>

definition queryTokensOf :: "'b PromptKernel_scheme \<Rightarrow> SelectionOptions \<Rightarrow> string list" where
  "queryTokensOf kern options =
     (let terms = (case queryTerms options of None \<Rightarrow> [] | Some ts \<Rightarrow> ts);
          queryParts = [k_name kern, k_prompt kern]
            @ (if length (k_keywords kern) > 0 then [join (k_keywords kern) '' ''] else [])
            @ (if length terms > 0 then [join terms '' ''] else []);
          queryText = join queryParts '' ''
      in tokenize queryText)"

text \<open>\<^verbatim>\<open>ratings.get(ratingKey) || initializeRating(memory.id, kernel.id)\<close>.\<close>

definition ratingOf ::
  "(string \<rightharpoonup> MemoryRating) \<Rightarrow> MemoryChunk \<Rightarrow> 'b PromptKernel_scheme \<Rightarrow> int \<Rightarrow> MemoryRating" where
  "ratingOf ratings memory kern now =
     (case ratings (makeRatingKey (m_id memory) (k_id kern)) of
        Some rating \<Rightarrow> rating
      | None \<Rightarrow> initializeRating (m_id memory) (k_id kern) now)"

text \<open>
  The body of the scoring loop, for one candidate, with the Thompson draws at \<open>pos\<close> and
  \<open>pos + 1\<close>. The clock does not advance during one selection. The score is NaN for a
  candidate whose timestamp is no date.
\<close>

definition scoreCandidate ::
  "(string \<Rightarrow> int option) \<Rightarrow> MemoryChunk list \<Rightarrow> 'b PromptKernel_scheme
     \<Rightarrow> (string \<rightharpoonup> MemoryRating) \<Rightarrow> SelectionOptions \<Rightarrow> int \<Rightarrow> (nat \<Rightarrow> randomNumber)
     \<Rightarrow> MemoryChunk \<Rightarrow> nat \<Rightarrow> real option ScoredMemory" where
  "scoreCandidate parseDate candidates kern ratings options now rng memory pos =
     (let df = buildDocumentFrequencies (map m_content candidates);
          totalDocs = length candidates;
          avgDocLength = avgDocLengthOf candidates;
          queryTokens = queryTokensOf kern options;
          docTokens = tokenize (m_content memory);
          bm25Score = calculateBM25 queryTokens docTokens df totalDocs avgDocLength;
          rating = ratingOf ratings memory kern now;
          thompsonScore = thompsonSample (mu rating) (sigma rating) rng pos;
          (total, signals) =
             calculateUtility parseDate memory kern bm25Score thompsonScore now
      in \<lparr> i_id = m_id memory, i_content = m_content memory, i_score = total,
           i_tags = m_tags memory, i_memory = memory,
           i_signals = signals\<lparr> s_thompson := thompsonScore \<rparr> \<rparr>)"

text \<open>The scoring loop: \<open>todo\<close> are the candidates not yet scored.\<close>

fun scoreLoop ::
  "(string \<Rightarrow> int option) \<Rightarrow> MemoryChunk list \<Rightarrow> 'b PromptKernel_scheme
     \<Rightarrow> (string \<rightharpoonup> MemoryRating) \<Rightarrow> SelectionOptions \<Rightarrow> int \<Rightarrow> (nat \<Rightarrow> randomNumber)
     \<Rightarrow> MemoryChunk list \<Rightarrow> real option ScoredMemory list \<Rightarrow> nat
     \<Rightarrow> real option ScoredMemory list \<times> nat" where
  "scoreLoop parseDate candidates kern ratings options now rng [] scored pos = (scored, pos)"
| "scoreLoop parseDate candidates kern ratings options now rng (memory # todo) scored pos =
     scoreLoop parseDate candidates kern ratings options now rng todo
       (scored @ [scoreCandidate parseDate candidates kern ratings options now rng memory pos])
       (pos + 2)"

definition toSelectedMemory :: "real option ScoredMemory \<Rightarrow> SelectedMemory" where
  "toSelectedMemory item =
     \<lparr> sel_memoryId = m_id (i_memory item), sel_content = m_content (i_memory item),
       sel_tags = m_tags (i_memory item), sel_score = i_score item,
       sel_signals = i_signals item \<rparr>"

text \<open>
  \<^verbatim>\<open>selectMemories(memories, kernel, ratings, limit, options)\<close>, with the date parser
  \<open>parseDate\<close>, the clock reading \<open>now\<close> and the random source \<open>rng\<close>, read from
  position 0.
\<close>

definition selectMemories ::
  "(string \<Rightarrow> int option) \<Rightarrow> MemoryChunk list \<Rightarrow> 'b PromptKernel_scheme
     \<Rightarrow> (string \<rightharpoonup> MemoryRating) \<Rightarrow> nat \<Rightarrow> SelectionOptions \<Rightarrow> int \<Rightarrow> (nat \<Rightarrow> randomNumber)
     \<Rightarrow> SelectedMemory list outcome" where
  "selectMemories parseDate memories kern ratings limit options now rng =
     (if length memories = 0 then Result []
      else
        let candidates = candidatesOf memories kern options
        in if length candidates = 0 then Result []
           else
             let (scored, pos) =
                   scoreLoop parseDate candidates kern ratings options now rng candidates [] 0;
                 oversampleK = min (limit * 3) (length scored);
                 oversampled = weightedSample scored (map i_score scored) oversampleK rng pos
             in (case selectByMMR_NaN oversampled 0.7 limit of
                   ImplementationDefined \<Rightarrow> ImplementationDefined
                 | Result diverse \<Rightarrow> Result (map toSelectedMemory diverse)))"

subsection \<open>Example inputs\<close>

text \<open>The number \<open>x\<close> as a value of \<^verbatim>\<open>Math.random()\<close>, for \<open>x\<close> in \<open>[0, 1)\<close>.\<close>

lift_definition randomOf :: "real \<Rightarrow> randomNumber" is
  "\<lambda>x. if 0 \<le> x \<and> x < 1 then x else 0"
  by simp

text \<open>
  A date parser that knows one date: \<^verbatim>\<open>new Date("2024-01-01T00:00:00.000Z").getTime()\<close>
  is 1704067200000, and \<^verbatim>\<open>new Date("not a date").getTime()\<close> is NaN.
\<close>

definition exampleParse :: "string \<Rightarrow> int option" where
  "exampleParse timestamp =
     (if timestamp = ''2024-01-01T00:00:00.000Z'' then Some 1704067200000 else None)"

definition exampleMemory :: MemoryChunk where
  "exampleMemory =
     \<lparr> m_id = ''A'', m_content = ''distributed consensus raft'', m_tags = [''systems''],
       m_importance = 5, m_timestamp = ''2024-01-01T00:00:00.000Z'', m_associations = None,
       m_episodeId = None \<rparr>"

definition exampleKernel :: PromptKernel where
  "exampleKernel =
     \<lparr> k_id = ''k'', k_name = ''q'', k_prompt = ''raft consensus algorithm'',
       k_keywords = [''systems''] \<rparr>"

definition noOptions :: SelectionOptions where
  "noOptions = \<lparr> queryTerms = None, bypassTagFilter = None \<rparr>"

text \<open>
  Two random sources: the first draw is \<open>exp (-2)\<close> (about 0.135), every later draw is
  \<open>1/2\<close>, or \<open>1/8\<close>.
\<close>

definition drawsHalf :: "nat \<Rightarrow> randomNumber" where
  "drawsHalf n = (if n = 0 then randomOf (exp (- 2)) else randomOf (1 / 2))"

definition drawsEighth :: "nat \<Rightarrow> randomNumber" where
  "drawsEighth n = (if n = 0 then randomOf (exp (- 2)) else randomOf (1 / 8))"

subsection \<open>Learning loop (the feedback module, second part of signals.ts)\<close>

record MemoryInteraction =
  int_id :: string
  int_memoryId :: string
  int_kernelId :: string
  int_contextId :: string
  int_reward :: reward
  int_timestamp :: int

text \<open>
  The injected storage. A setting holds a string; what matters of it is whether
  \<^verbatim>\<open>JSON.parse\<close> accepts it and which array it then gives. The keys
  \<^verbatim>\<open>memory_ratings_<profileId>\<close> and \<^verbatim>\<open>memory_interactions_<profileId>\<close> of the two kinds
  of settings never coincide, so the settings are two maps from profile ids. The module
  variable \<^verbatim>\<open>storage\<close> is \<open>None\<close> until \<^verbatim>\<open>setStorage\<close> is called.
\<close>

datatype 'a stored = Corrupt | Parsed 'a

record store =
  ratingsSetting :: "string \<rightharpoonup> MemoryRating list stored"
  interactionsSetting :: "string \<rightharpoonup> MemoryInteraction list stored"

type_synonym storage = "store option"

datatype error = StorageNotInitialized

text \<open>
  A \<^verbatim>\<open>Map<string, MemoryRating>\<close> is the list of its entries in insertion order:
  \<^verbatim>\<open>set\<close> replaces the value of a key in place or appends a new entry, \<^verbatim>\<open>values()\<close>
  runs through the entries in order.
\<close>

type_synonym ratingMap = "(string \<times> MemoryRating) list"

fun mapSet :: "string \<Rightarrow> MemoryRating \<Rightarrow> ratingMap \<Rightarrow> ratingMap" where
  "mapSet key v [] = [(key, v)]"
| "mapSet key v ((key', v') # rest) =
     (if key' = key then (key, v) # rest else (key', v') # mapSet key v rest)"

definition mapGet :: "ratingMap \<Rightarrow> string \<Rightarrow> MemoryRating option" where
  "mapGet m key = map_of m key"

definition loadRatings :: "string \<Rightarrow> storage \<Rightarrow> error + ratingMap" where
  "loadRatings profileId st =
     (case st of
        None \<Rightarrow> Inl StorageNotInitialized
      | Some s \<Rightarrow>
          (case ratingsSetting s profileId of
             None \<Rightarrow> Inr []
           | Some Corrupt \<Rightarrow> Inr []
           | Some (Parsed ratings) \<Rightarrow>
               Inr (fold (\<lambda>rating m. mapSet (makeRatingKey (memoryId rating) (kernelId rating))
                                      rating m)
                      ratings [])))"

definition saveRatings :: "string \<Rightarrow> ratingMap \<Rightarrow> storage \<Rightarrow> error + storage" where
  "saveRatings profileId ratings st =
     (case st of
        None \<Rightarrow> Inl StorageNotInitialized
      | Some s \<Rightarrow>
          Inr (Some (s\<lparr> ratingsSetting :=
                        (ratingsSetting s)(profileId \<mapsto> Parsed (map snd ratings)) \<rparr>)))"

definition loadInteractions :: "string \<Rightarrow> storage \<Rightarrow> error + MemoryInteraction list" where
  "loadInteractions profileId st =
     (case st of
        None \<Rightarrow> Inl StorageNotInitialized
      | Some s \<Rightarrow>
          (case interactionsSetting s profileId of
             None \<Rightarrow> Inr []
           | Some Corrupt \<Rightarrow> Inr []
           | Some (Parsed interactions) \<Rightarrow> Inr interactions))"

text \<open>\<^verbatim>\<open>xs.slice(-n)\<close>: the last \<open>n\<close> elements, all of \<open>xs\<close> when it has fewer.\<close>

definition sliceLast :: "nat \<Rightarrow> 'b list \<Rightarrow> 'b list" where
  "sliceLast n xs = (if length xs > n then drop (length xs - n) xs else xs)"

definition saveInteractions ::
  "string \<Rightarrow> MemoryInteraction list \<Rightarrow> storage \<Rightarrow> error + storage" where
  "saveInteractions profileId interactions st =
     (case st of
        None \<Rightarrow> Inl StorageNotInitialized
      | Some s \<Rightarrow>
          let recent = sliceLast 1000 interactions
          in Inr (Some (s\<lparr> interactionsSetting :=
                             (interactionsSetting s)(profileId \<mapsto> Parsed recent) \<rparr>)))"

text \<open>
  The state of the loop of \<^verbatim>\<open>applyFeedback\<close>: the rating map, the interaction list, and
  the numbers of calls of \<^verbatim>\<open>Date.now()\<close> and of \<^verbatim>\<open>crypto.randomUUID()\<close> made so far. The
  sequences \<open>clock\<close> and \<open>uuids\<close> give what the successive calls return.
\<close>

record feedbackState =
  fb_ratings :: ratingMap
  fb_interactions :: "MemoryInteraction list"
  fb_ticks :: nat
  fb_ids :: nat

definition feedbackStep ::
  "string \<Rightarrow> string \<Rightarrow> (nat \<Rightarrow> int) \<Rightarrow> (nat \<Rightarrow> string) \<Rightarrow> string \<times> reward
     \<Rightarrow> feedbackState \<Rightarrow> feedbackState" where
  "feedbackStep kId contextId clock uuids rw state =
     (let mId = fst rw;
          key = makeRatingKey mId kId;
          (currentRating, ticks) =
             (case mapGet (fb_ratings state) key of
                Some rating \<Rightarrow> (rating, fb_ticks state)
              | None \<Rightarrow> (initializeRating mId kId (clock (fb_ticks state)), fb_ticks state + 1));
          newRating = updateRating currentRating (snd rw) (clock ticks);
          interaction = \<lparr> int_id = uuids (fb_ids state), int_memoryId = mId,
                          int_kernelId = kId, int_contextId = contextId,
                          int_reward = snd rw, int_timestamp = clock (ticks + 1) \<rparr>
      in \<lparr> fb_ratings = mapSet key newRating (fb_ratings state),
           fb_interactions = fb_interactions state @ [interaction],
           fb_ticks = ticks + 2,
           fb_ids = fb_ids state + 1 \<rparr>)"

definition applyFeedback ::
  "string \<Rightarrow> string \<Rightarrow> string \<Rightarrow> (string \<times> reward) list \<Rightarrow> (nat \<Rightarrow> int) \<Rightarrow> (nat \<Rightarrow> string)
     \<Rightarrow> storage \<Rightarrow> error + storage" where
  "applyFeedback profileId kId contextId rewards clock uuids st =
     (case loadRatings profileId st of
        Inl e \<Rightarrow> Inl e
      | Inr ratings \<Rightarrow>
          (case loadInteractions profileId st of
             Inl e \<Rightarrow> Inl e
           | Inr interactions \<Rightarrow>
               let final = fold (feedbackStep kId contextId clock uuids) rewards
                     \<lparr> fb_ratings = ratings, fb_interactions = interactions,
                       fb_ticks = 0, fb_ids = 0 \<rparr>
               in (case saveRatings profileId (fb_ratings final) st of
                     Inl e \<Rightarrow> Inl e
                   | Inr st' \<Rightarrow> saveInteractions profileId (fb_interactions final) st')))"

definition recordUsage ::
  "string \<Rightarrow> string \<Rightarrow> string \<Rightarrow> string list \<Rightarrow> (nat \<Rightarrow> int) \<Rightarrow> (nat \<Rightarrow> string)
     \<Rightarrow> storage \<Rightarrow> error + storage" where
  "recordUsage profileId kId contextId memoryIds clock uuids st =
     (let rewards = map (\<lambda>mId. (mId, Positive)) memoryIds
      in applyFeedback profileId kId contextId rewards clock uuids st)"

text \<open>The \<^verbatim>\<open>uses\<close> counter that a rating map holds under a key, 0 for an absent key.\<close>

definition usesAt :: "ratingMap \<Rightarrow> string \<Rightarrow> nat" where
  "usesAt m key = (case mapGet m key of None \<Rightarrow> 0 | Some rating \<Rightarrow> uses rating)"

text \<open>A clock that advances by one per reading, and two uuids.\<close>

definition exampleClock :: "nat \<Rightarrow> int" where
  "exampleClock n = 1000 + int n"

definition exampleUuids :: "nat \<Rightarrow> string" where
  "exampleUuids n = (if n = 0 then ''uuid-0'' else ''uuid-1'')"

text \<open>
  What the stored state says, read without the loading functions. A setting that is
  missing or that \<^verbatim>\<open>JSON.parse\<close> rejects counts as the empty array. The key of a stored
  rating is that of its own \<^verbatim>\<open>memoryId\<close> and \<^verbatim>\<open>kernelId\<close>; the rating that a stored
  array holds for a key is its last element with that key (a later element of the array
  replaces an earlier one of the same key when the table is loaded); its \<^verbatim>\<open>uses\<close> are 0
  when there is none.
\<close>

fun storedArray :: "'b list stored option \<Rightarrow> 'b list" where
  "storedArray None = []"
| "storedArray (Some Corrupt) = []"
| "storedArray (Some (Parsed xs)) = xs"

definition ratingKey :: "MemoryRating \<Rightarrow> string" where
  "ratingKey rating = makeRatingKey (memoryId rating) (kernelId rating)"

fun storedRating :: "MemoryRating list \<Rightarrow> string \<Rightarrow> MemoryRating option" where
  "storedRating [] key = None"
| "storedRating (rating # rest) key =
     (case storedRating rest key of
        Some later \<Rightarrow> Some later
      | None \<Rightarrow> if ratingKey rating = key then Some rating else None)"

definition storedUses :: "MemoryRating list \<Rightarrow> string \<Rightarrow> nat" where
  "storedUses ratings key =
     (case storedRating ratings key of None \<Rightarrow> 0 | Some rating \<Rightarrow> uses rating)"

text \<open>
  A store that holds, for the profile \<open>p\<close>, one rating of the memory \<open>m1\<close> under the
  kernel \<open>k\<close> with four uses, and no interactions.
\<close>

definition exampleStore :: store where
  "exampleStore =
     \<lparr> ratingsSetting =
         [''p'' \<mapsto> Parsed [\<lparr> memoryId = ''m1'', kernelId = ''k'', mu = 1 / 2, sigma = 1 / 2,
                                uses = 4, lastUpdatedAt = 900 \<rparr>]],
       interactionsSetting = Map.empty \<rparr>"

section \<open>Properties\<close>

subsection \<open>Rating update\<close>

lemma kalmanGain_range: "0 \<le> kalmanGain r \<and> kalmanGain r < 1"
proof -
  have v: "0 \<le> variance r" by (simp add: variance_def)
  have "variance r < variance r + 1" by simp
  with v show ?thesis
    by (simp add: kalmanGain_def observationVariance_def SIGMA_OBSERVATION_def)
qed

lemma newMu_bounded:
  assumes "\<bar>mu r\<bar> \<le> 1"
  shows "\<bar>newMu r rw\<bar> \<le> 1"
proof -
  define K where "K = kalmanGain r"
  have K: "0 \<le> K" "K < 1" using kalmanGain_range [of r] by (simp_all add: K_def)
  have rv: "\<bar>rewardValue rw\<bar> \<le> 1" by (cases rw) simp_all
  have eq: "newMu r rw = (1 - K) * mu r + K * rewardValue rw"
    by (simp add: newMu_def K_def algebra_simps)
  have "\<bar>(1 - K) * mu r\<bar> = (1 - K) * \<bar>mu r\<bar>"
    using K by (simp add: abs_mult)
  also have "\<dots> \<le> (1 - K) * 1"
    using K assms by (intro mult_left_mono) simp_all
  finally have a: "\<bar>(1 - K) * mu r\<bar> \<le> (1 - K) * 1" .
  have "\<bar>K * rewardValue rw\<bar> = K * \<bar>rewardValue rw\<bar>"
    using K by (simp add: abs_mult)
  also have "\<dots> \<le> K * 1"
    using K rv by (intro mult_left_mono) simp_all
  finally have "\<bar>K * rewardValue rw\<bar> \<le> K * 1" .
  with a
  have "\<bar>(1 - K) * mu r + K * rewardValue rw\<bar> \<le> (1 - K) * 1 + K * 1"
    by linarith
  then show ?thesis by (simp add: eq)
qed

lemma updateRating_fields:
  "mu (updateRating r rw now) = newMu r rw"
  "sigma (updateRating r rw now) = max 0.1 (min 2.0 (newSigma r))"
  "uses (updateRating r rw now) = uses r + 1"
  "lastUpdatedAt (updateRating r rw now) = now"
  "memoryId (updateRating r rw now) = memoryId r"
  "kernelId (updateRating r rw now) = kernelId r"
  "MemoryRating.more (updateRating r rw now) = MemoryRating.more r"
  by (simp_all add: updateRating_def)

lemma updateMany_snoc:
  "updateMany r (steps @ [(rw, now)]) = updateRating (updateMany r steps) rw now"
  by (simp add: updateMany_def)

lemma updateMany_invariant:
  assumes "0.1 \<le> sigma r" "sigma r \<le> 2.0" "\<bar>mu r\<bar> \<le> 1"
  shows "0.1 \<le> sigma (updateMany r steps) \<and> sigma (updateMany r steps) \<le> 2.0
         \<and> \<bar>mu (updateMany r steps)\<bar> \<le> 1
         \<and> uses (updateMany r steps) = uses r + length steps"
proof (induction steps rule: rev_induct)
  case Nil
  show ?case using assms by (simp add: updateMany_def)
next
  case (snoc s steps)
  obtain rw now where s: "s = (rw, now)" by (cases s)
  from snoc show ?case
    by (simp add: s updateMany_snoc updateRating_fields newMu_bounded)
qed

text \<open>
  C2. Start from any rating made by \<^verbatim>\<open>initializeRating\<close> and apply \<^verbatim>\<open>updateRating\<close> any
  finite number of times, with any rewards and clock readings. Then sigma lies in
  \<open>[0.1, 2.0]\<close>, mu is a real number (it even stays within \<open>[-1, 1]\<close>), and \<^verbatim>\<open>uses\<close> is the
  number of updates applied: one more after each update, so it never decreases.
\<close>

theorem rating_invariant:
  "0.1 \<le> sigma (updateMany (initializeRating mId kId t0) steps)
   \<and> sigma (updateMany (initializeRating mId kId t0) steps) \<le> 2.0
   \<and> mu (updateMany (initializeRating mId kId t0) steps) \<in> \<real>
   \<and> \<bar>mu (updateMany (initializeRating mId kId t0) steps)\<bar> \<le> 1
   \<and> uses (updateMany (initializeRating mId kId t0) steps) = length steps
   \<and> uses (updateRating (updateMany (initializeRating mId kId t0) steps) rw now)
       = uses (updateMany (initializeRating mId kId t0) steps) + 1"
proof -
  let ?r = "initializeRating mId kId t0"
  have "0.1 \<le> sigma ?r" "sigma ?r \<le> 2.0" "\<bar>mu ?r\<bar> \<le> 1" "uses ?r = 0"
    by (simp_all add: initializeRating_def)
  from updateMany_invariant [OF this(1-3), of steps] this(4)
  show ?thesis by (simp add: updateRating_fields Reals_def)
qed

lemma sqrt_half_bounds: "0.7071 < sqrt (1 / 2) \<and> sqrt (1 / 2) < (0.7072 :: real)"
proof
  show "0.7071 < sqrt (1 / 2)"
    by (rule real_less_rsqrt) (simp add: power2_eq_square)
  show "sqrt (1 / 2) < (0.7072 :: real)"
    by (rule real_less_lsqrt) (simp_all add: power2_eq_square)
qed

text \<open>
  C3. One update with reward \<open>+1\<close> of a fresh rating (mu 0, sigma 1, uses 0): the Kalman
  gain is exactly \<open>1/2\<close>, the new mu is \<open>1/2\<close>, the new sigma is \<open>sqrt (1/2) + 0.01\<close>, which
  is the unclamped value (the clamp to \<open>[0.1, 2.0]\<close> does nothing) and lies within
  \<open>0.001\<close> of \<open>0.717\<close>, and \<^verbatim>\<open>uses\<close> is 1.
\<close>

theorem first_positive_update:
  "kalmanGain (initializeRating mId kId t0) = 1 / 2
   \<and> mu (updateRating (initializeRating mId kId t0) Positive now) = 1 / 2
   \<and> sigma (updateRating (initializeRating mId kId t0) Positive now) = sqrt (1 / 2) + 0.01
   \<and> newSigma (initializeRating mId kId t0) = sqrt (1 / 2) + 0.01
   \<and> 0.1 \<le> newSigma (initializeRating mId kId t0)
   \<and> newSigma (initializeRating mId kId t0) \<le> 2.0
   \<and> \<bar>sigma (updateRating (initializeRating mId kId t0) Positive now) - 0.717\<bar> < 0.001
   \<and> uses (updateRating (initializeRating mId kId t0) Positive now) = 1"
proof -
  let ?r = "initializeRating mId kId t0"
  have K: "kalmanGain ?r = 1 / 2"
    by (simp add: kalmanGain_def variance_def observationVariance_def
        SIGMA_OBSERVATION_def initializeRating_def)
  have v: "variance ?r = 1"
    by (simp add: variance_def initializeRating_def)
  have m0: "mu ?r = 0"
    by (simp add: initializeRating_def)
  have m: "newMu ?r Positive = 1 / 2"
    by (simp add: newMu_def K m0)
  have s: "newSigma ?r = sqrt (1 / 2) + 0.01"
    by (simp add: newSigma_def K v SIGMA_DRIFT_def)
  have b: "0.1 \<le> newSigma ?r" "newSigma ?r \<le> 2.0" "\<bar>newSigma ?r - 0.717\<bar> < 0.001"
    using sqrt_half_bounds by (simp_all add: s)
  have c: "max 0.1 (min 2.0 (newSigma ?r)) = newSigma ?r"
    using b by simp
  have u: "uses (updateRating ?r Positive now) = 1"
    by (simp add: updateRating_fields initializeRating_def)
  show ?thesis
    using K m s b u by (simp add: updateRating_fields(1,2) c)
qed

subsection \<open>Frame of the rating update\<close>

text \<open>
  C10. \<^verbatim>\<open>updateRating\<close> is non-destructive and frame-preserving. The record it returns
  has the \<^verbatim>\<open>memoryId\<close> and \<^verbatim>\<open>kernelId\<close> of its input (and every further property the
  input object carries); it is the input with only \<^verbatim>\<open>mu\<close>, \<^verbatim>\<open>sigma\<close>, \<^verbatim>\<open>uses\<close> and
  \<^verbatim>\<open>lastUpdatedAt\<close> replaced. On the heap, the result is a new object at an address
  different from the input's, and the input object, like every other object that
  existed before the call, is unchanged.
\<close>

theorem updateRating_frame:
  "memoryId (updateRating r rw now) = memoryId r
   \<and> kernelId (updateRating r rw now) = kernelId r
   \<and> MemoryRating.more (updateRating r rw now) = MemoryRating.more r
   \<and> updateRating r rw now
       = r\<lparr> mu := mu (updateRating r rw now), sigma := sigma (updateRating r rw now),
            uses := uses (updateRating r rw now),
            lastUpdatedAt := lastUpdatedAt (updateRating r rw now) \<rparr>
   \<and> (a < length h \<longrightarrow>
        (\<exists>h' a'. updateRatingH h a rw now = Some (h', a')
           \<and> a' \<noteq> a \<and> a' = length h \<and> length h' = Suc (length h)
           \<and> h' ! a = h ! a
           \<and> (\<forall>b < length h. h' ! b = h ! b)
           \<and> h' ! a' = updateRating (h ! a) rw now
           \<and> memoryId (h' ! a') = memoryId (h ! a)
           \<and> kernelId (h' ! a') = kernelId (h ! a)))"
  by (simp add: updateRating_def updateRatingH_def nth_append)

theorem updateRating_frame_witness:
  "(0::nat) < length [initializeRating ''m1'' ''k1'' 5]
   \<and> (\<exists>h' a'. updateRatingH [initializeRating ''m1'' ''k1'' 5] 0 Positive 7 = Some (h', a')
         \<and> a' \<noteq> 0
         \<and> h' ! 0 = initializeRating ''m1'' ''k1'' 5
         \<and> memoryId (h' ! a') = ''m1'' \<and> kernelId (h' ! a') = ''k1''
         \<and> uses (h' ! a') = 1 \<and> lastUpdatedAt (h' ! a') = 7)"
  using updateRating_frame
    [of "initializeRating ''m1'' ''k1'' 5" Positive 7 0 "[initializeRating ''m1'' ''k1'' 5]"]
  by (auto simp add: initializeRating_def updateRating_def)

subsection \<open>Tokenizer\<close>

lemma toLowerChar_idem: "toLowerChar (toLowerChar c) = toLowerChar c"
  by (auto simp add: toLowerChar_def Let_def)

lemma toLowerChar_space: "toLowerChar (CHR '' '') = CHR '' ''"
  by (simp add: toLowerChar_def)

lemma isWhitespace_space: "isWhitespace (CHR '' '')"
  by (simp add: isWhitespace_def)

lemma splitWhitespace_nonempty: "splitWhitespace s \<noteq> []"
  by (induction s rule: splitWhitespace.induct) (auto split: list.splits)

lemma splitWhitespace_pieces:
  "t \<in> set (splitWhitespace s) \<Longrightarrow> c \<in> set t \<Longrightarrow> c \<in> set s \<and> \<not> isWhitespace c"
proof (induction s arbitrary: t rule: splitWhitespace.induct)
  case 1
  then show ?case by simp
next
  case (2 d ds)
  show ?case
  proof (cases "isWhitespace d")
    case True
    with 2 have "t \<in> set (splitWhitespace (dropWhile isWhitespace ds))" by auto
    from "2.IH"(1) [OF True this "2.prems"(2)]
    show ?thesis by (auto dest: set_dropWhileD)
  next
    case False
    obtain w ws where sp: "splitWhitespace ds = w # ws"
      using splitWhitespace_nonempty [of ds] by (cases "splitWhitespace ds") auto
    from "2.prems"(1) False sp have "t = d # w \<or> t \<in> set ws" by auto
    then show ?thesis
    proof
      assume t: "t = d # w"
      show ?thesis
      proof (cases "c = d")
        case True
        with False show ?thesis by simp
      next
        case False
        with t "2.prems"(2) have "c \<in> set w" by simp
        moreover have "w \<in> set (splitWhitespace ds)" by (simp add: sp)
        ultimately show ?thesis using "2.IH"(2) [OF \<open>\<not> isWhitespace d\<close>] by auto
      qed
    next
      assume "t \<in> set ws"
      then have "t \<in> set (splitWhitespace ds)" by (simp add: sp)
      then show ?thesis using "2.IH"(2) [OF False _ "2.prems"(2)] by auto
    qed
  qed
qed

lemma tokenize_chars:
  assumes "t \<in> set (tokenize x)" "c \<in> set t"
  shows "\<not> isWhitespace c \<and> c \<notin> set PUNCTUATION \<and> toLowerChar c = c"
proof -
  from assms(1) have "t \<in> set (splitWhitespace (replacePunctuation (toLowerCase x)))"
    by (simp add: tokenize_def)
  from splitWhitespace_pieces [OF this assms(2)]
  have c: "c \<in> set (replacePunctuation (toLowerCase x))" and w: "\<not> isWhitespace c"
    by simp_all
  from c obtain l where l: "l \<in> set (toLowerCase x)"
      "c = (if l \<in> set PUNCTUATION then CHR '' '' else l)"
    unfolding replacePunctuation_def by auto
  from l(1) obtain d where d: "l = toLowerChar d"
    unfolding toLowerCase_def by auto
  from l(2) w isWhitespace_space have "l \<notin> set PUNCTUATION" "c = l"
    by (auto split: if_splits)
  with w d show ?thesis
    by (simp add: toLowerChar_idem)
qed

lemma tokenize_token:
  "t \<in> set (tokenize x) \<Longrightarrow> t \<noteq> [] \<and> t \<notin> set STOP_WORDS \<and> 2 \<le> length t"
  by (simp add: tokenize_def)

lemma splitWhitespace_prefix:
  "\<forall>c \<in> set t. \<not> isWhitespace c \<Longrightarrow>
     splitWhitespace (t @ s) = (t @ hd (splitWhitespace s)) # tl (splitWhitespace s)"
proof (induction t)
  case Nil
  then show ?case using splitWhitespace_nonempty [of s] by simp
next
  case (Cons a t)
  then show ?case by simp
qed

lemma join_Cons_Cons: "join (t # u # us) sep = t @ sep @ join (u # us) sep"
  by simp

lemma splitWhitespace_join:
  assumes "\<forall>t \<in> set ts. t \<noteq> [] \<and> (\<forall>c \<in> set t. \<not> isWhitespace c)"
  shows "splitWhitespace (join ts '' '') = (if ts = [] then [[]] else ts)"
  using assms
proof (induction ts rule: induct_list012)
  case 1
  then show ?case by simp
next
  case (2 t)
  then show ?case
    using splitWhitespace_prefix [of t "[]"] by simp
next
  case (3 t u us)
  then have u: "u \<noteq> []" "\<not> isWhitespace (hd u)" by auto
  have "join (u # us) '' '' = hd u # tl (join (u # us) '' '')"
    using u(1) by (cases us; cases u) simp_all
  then have dw: "dropWhile isWhitespace (join (u # us) '' '') = join (u # us) '' ''"
    using u(2) by (metis dropWhile.simps(2))
  have "splitWhitespace (join (t # u # us) '' '')
        = (t @ hd (splitWhitespace ('' '' @ join (u # us) '' '')))
          # tl (splitWhitespace ('' '' @ join (u # us) '' ''))"
    using 3 by (simp add: splitWhitespace_prefix)
  also have "splitWhitespace ('' '' @ join (u # us) '' '') = [] # splitWhitespace (join (u # us) '' '')"
    by (simp add: isWhitespace_space dw)
  finally show ?case using 3 by simp
qed


lemma set_join: "c \<in> set (join ts sep) \<Longrightarrow> c \<in> set sep \<or> (\<exists>t \<in> set ts. c \<in> set t)"
  by (induction ts sep rule: join.induct) auto

lemma join_tokens_char:
  assumes "c \<in> set (join (tokenize x) '' '')"
  shows "toLowerChar c = c \<and> (if c \<in> set PUNCTUATION then CHR '' '' else c) = c"
proof -
  from set_join [OF assms] have "c = CHR '' '' \<or> (\<exists>t \<in> set (tokenize x). c \<in> set t)"
    by simp
  then show ?thesis
    using tokenize_chars [of _ x c] toLowerChar_space by auto
qed

lemma normalise_join_tokens:
  "replacePunctuation (toLowerCase (join (tokenize x) '' '')) = join (tokenize x) '' ''"
proof -
  have "toLowerCase (join (tokenize x) '' '') = join (tokenize x) '' ''"
    unfolding toLowerCase_def by (rule map_idI) (simp add: join_tokens_char)
  moreover have "replacePunctuation (join (tokenize x) '' '') = join (tokenize x) '' ''"
    unfolding replacePunctuation_def by (rule map_idI) (simp add: join_tokens_char)
  ultimately show ?thesis by simp
qed

text \<open>
  C6. Tokenization is idempotent: tokenizing the space-join of the tokens of any string
  gives the same tokens again. (Every token is lowercase, has no character of the
  punctuation class and no whitespace, has length at least 2 and is no stop word.)
\<close>

theorem tokenize_idempotent:
  "tokenize (join (tokenize x) '' '') = tokenize x"
proof -
  let ?keep = "\<lambda>t. t \<noteq> [] \<and> t \<notin> set STOP_WORDS \<and> 2 \<le> length t"
  have ok: "\<forall>t \<in> set (tokenize x). t \<noteq> [] \<and> (\<forall>c \<in> set t. \<not> isWhitespace c)"
    using tokenize_token [of _ x] tokenize_chars [of _ x] by blast
  have "tokenize (join (tokenize x) '' '')
        = filter ?keep (splitWhitespace (join (tokenize x) '' ''))"
    by (simp add: tokenize_def [of "join (tokenize x) '' ''"] normalise_join_tokens)
  also have "\<dots> = filter ?keep (if tokenize x = [] then [[]] else tokenize x)"
    by (simp only: splitWhitespace_join [OF ok])
  also have "\<dots> = filter ?keep (tokenize x)"
    by simp
  also have "\<dots> = tokenize x"
    by (rule filter_True) (use tokenize_token [of _ x] in blast)
  finally show ?thesis .
qed

subsection \<open>BM25\<close>

lemma set_fold_setAdd: "set (fold setAdd xs acc) = set acc \<union> set xs"
  by (induction xs arbitrary: acc) (auto simp add: setAdd_def)

lemma distinct_fold_setAdd: "distinct acc \<Longrightarrow> distinct (fold setAdd xs acc)"
  by (induction xs arbitrary: acc) (auto simp add: setAdd_def)

lemma set_newSet: "set (newSet xs) = set xs"
  by (simp add: newSet_def set_fold_setAdd)

lemma distinct_newSet: "distinct (newSet xs)"
  by (simp add: newSet_def distinct_fold_setAdd)

lemma orZero_fold_increment:
  "orZero (fold increment ts m t) = orZero (m t) + count_list ts t"
  by (induction ts arbitrary: m) (auto simp add: increment_def)

lemma termFrequencies_count: "orZero (termFrequencies d t) = count_list d t"
  by (simp add: termFrequencies_def orZero_fold_increment)

lemma bm25Step_add: "bm25Step tf df N dl avg t s = s + bm25Term tf df N dl avg t"
  by (simp add: bm25Step_def bm25Term_def Let_def)

lemma fold_bm25Step:
  "fold (bm25Step tf df N dl avg) ts s = s + sum_list (map (bm25Term tf df N dl avg) ts)"
proof (induction ts arbitrary: s)
  case Nil
  show ?case by simp
next
  case (Cons t ts)
  show ?case
    by (simp add: Cons.IH bm25Step_add [of tf df N dl avg t s])
qed

lemma bm25Term_absent: "orZero (tf t) = 0 \<Longrightarrow> bm25Term tf df N dl avg t = 0"
  by (simp add: bm25Term_def bm25Step_def)

lemma bm25_denominator_pos:
  assumes "0 < (n::nat)"
  shows "0 < real n + BM25_K1 * (1 - BM25_B + BM25_B * (real dl / max 1 avg))"
proof -
  have "0 \<le> real dl / max 1 avg" by simp
  then have "0 \<le> BM25_K1 * (1 - BM25_B + BM25_B * (real dl / max 1 avg))"
    by (simp add: BM25_K1_def BM25_B_def)
  moreover have "0 < real n" using assms by simp
  ultimately show ?thesis by linarith
qed

lemma bm25_idf_eq:
  "(real N - real n + 0.5) / (real n + 0.5) + 1 = (real N + 1) / (real n + 0.5)"
proof -
  have "0 < real n + 0.5" by (simp add: add_nonneg_pos)
  then show ?thesis by (simp add: field_simps)
qed

lemma bm25Term_sign:
  assumes "0 < orZero (tf t)" "0 < orZero (df t)"
  shows "orZero (df t) \<le> N \<Longrightarrow> 0 < bm25Term tf df N dl avg t"
proof -
  assume le: "orZero (df t) \<le> N"
  let ?n = "orZero (df t)"
  have "real ?n + 0.5 < real N + 1" using le by simp
  moreover have "0 < real ?n + 0.5" by (simp add: add_nonneg_pos)
  ultimately have "1 < (real N + 1) / (real ?n + 0.5)" by simp
  then have "0 < ln ((real N + 1) / (real ?n + 0.5))"
    by (rule ln_gt_zero)
  then have idf: "0 < ln ((real N - real ?n + 0.5) / (real ?n + 0.5) + 1)"
    by (simp only: bm25_idf_eq)
  have den: "0 < max 0.000001 (real (orZero (tf t))
      + BM25_K1 * (1 - BM25_B + BM25_B * (real dl / max 1 avg)))"
    by simp
  have num: "0 < real (orZero (tf t)) * (BM25_K1 + 1)"
    using assms(1) by (simp add: BM25_K1_def)
  from idf den num show ?thesis
    using assms by (simp add: bm25Term_def bm25Step_def Let_def)
qed

lemma sum_list_pos_member:
  fixes f :: "'a \<Rightarrow> real"
  assumes "\<forall>x \<in> set xs. 0 \<le> f x" "t \<in> set xs" "0 < f t"
  shows "0 < sum_list (map f xs)"
  using assms
proof (induction xs)
  case Nil
  then show ?case by simp
next
  case (Cons x xs)
  have rest: "0 \<le> sum_list (map f xs)"
    using Cons.prems(1) by (intro sum_list_nonneg) auto
  show ?case
  proof (cases "t = x")
    case True
    with Cons.prems(3) rest show ?thesis by simp
  next
    case False
    with Cons have "0 < sum_list (map f xs)" by simp
    moreover have "0 \<le> f x" using Cons.prems(1) by simp
    ultimately show ?thesis by simp
  qed
qed

lemma sum_list_all_zero:
  fixes f :: "'a \<Rightarrow> real"
  shows "\<forall>x \<in> set xs. f x = 0 \<Longrightarrow> sum_list (map f xs) = 0"
  by (induction xs) simp_all

text \<open>
  C4, as the code has it. \<^verbatim>\<open>calculateBM25\<close> returns 0 when the query and the document
  share no token (in particular when either list is empty). It returns a strictly
  positive value when some query term occurs in the document with a document frequency
  of at least 1 and below \<open>N\<close>, and no term shared by query and document has a document
  frequency above \<open>N\<close>. A shared term that the document-frequency map does not hold (or
  holds with 0) is skipped, and a shared term with a frequency above \<open>N\<close> has a negative
  idf.
\<close>

theorem bm25_zero_and_positive:
  "(set q \<inter> set d = {} \<longrightarrow> calculateBM25 q d df N avg = 0)
   \<and> ((\<exists>t \<in> set q \<inter> set d. 1 \<le> orZero (df t) \<and> orZero (df t) < N)
        \<and> (\<forall>u \<in> set q \<inter> set d. orZero (df u) \<le> N)
      \<longrightarrow> 0 < calculateBM25 q d df N avg)"
proof (intro conjI impI)
  assume disj: "set q \<inter> set d = {}"
  have "\<forall>t \<in> set (newSet q). bm25Term (termFrequencies d) df N (length d) avg t = 0"
  proof
    fix t assume "t \<in> set (newSet q)"
    with disj have "t \<notin> set d" by (auto simp add: set_newSet)
    then have "orZero (termFrequencies d t) = 0"
      by (simp add: termFrequencies_count)
    then show "bm25Term (termFrequencies d) df N (length d) avg t = 0"
      by (rule bm25Term_absent)
  qed
  then have "sum_list (map (bm25Term (termFrequencies d) df N (length d) avg) (newSet q)) = 0"
    by (rule sum_list_all_zero)
  then show "calculateBM25 q d df N avg = 0"
    by (simp add: calculateBM25_def Let_def fold_bm25Step)
next
  assume h: "(\<exists>t \<in> set q \<inter> set d. 1 \<le> orZero (df t) \<and> orZero (df t) < N)
             \<and> (\<forall>u \<in> set q \<inter> set d. orZero (df u) \<le> N)"
  then obtain t where t: "t \<in> set q" "t \<in> set d" "1 \<le> orZero (df t)" "orZero (df t) < N"
    by auto
  let ?g = "bm25Term (termFrequencies d) df N (length d) avg"
  have nonneg: "\<forall>u \<in> set (newSet q). 0 \<le> ?g u"
  proof
    fix u assume u: "u \<in> set (newSet q)"
    show "0 \<le> ?g u"
    proof (cases "0 < orZero (termFrequencies d u) \<and> 0 < orZero (df u)")
      case True
      then have "count_list d u \<noteq> 0"
        by (simp add: termFrequencies_count)
      then have "u \<in> set d"
        by (simp add: count_list_0_iff)
      with u h have "orZero (df u) \<le> N" by (simp add: set_newSet)
      with True have "0 < ?g u" by (simp add: bm25Term_sign)
      then show ?thesis by simp
    next
      case False
      then show ?thesis
        by (auto simp add: bm25Term_def bm25Step_def Let_def)
    qed
  qed
  have "count_list d t \<noteq> 0"
    using t(2) by (simp add: count_list_0_iff)
  then have "0 < orZero (termFrequencies d t)"
    by (simp add: termFrequencies_count)
  with t have pos: "0 < ?g t" by (simp add: bm25Term_sign)
  have "0 < sum_list (map ?g (newSet q))"
    using nonneg _ pos by (rule sum_list_pos_member) (simp add: set_newSet t)
  moreover have "q \<noteq> []" "d \<noteq> []" using t by auto
  ultimately show "0 < calculateBM25 q d df N avg"
    by (simp add: calculateBM25_def Let_def fold_bm25Step)
qed

theorem bm25_zero_and_positive_witness:
  "set [''raft''] \<inter> set [''onion''] = {}
   \<and> calculateBM25 [''raft''] [''onion''] [''raft'' \<mapsto> 1, ''onion'' \<mapsto> 1] 2 1 = 0
   \<and> ''raft'' \<in> set [''raft'', ''consensus''] \<inter> set [''distributed'', ''consensus'', ''raft'']
   \<and> 1 \<le> orZero ([''raft'' \<mapsto> 1, ''consensus'' \<mapsto> 2, ''distributed'' \<mapsto> 1] ''raft'')
   \<and> orZero ([''raft'' \<mapsto> 1, ''consensus'' \<mapsto> 2, ''distributed'' \<mapsto> 1] ''raft'') < 2
   \<and> orZero ([''raft'' \<mapsto> 1, ''consensus'' \<mapsto> 2, ''distributed'' \<mapsto> 1] ''consensus'') \<le> 2
   \<and> 0 < calculateBM25 [''raft'', ''consensus''] [''distributed'', ''consensus'', ''raft'']
           [''raft'' \<mapsto> 1, ''consensus'' \<mapsto> 2, ''distributed'' \<mapsto> 1] 2 3"
proof -
  let ?df = "[''raft'' \<mapsto> 1, ''consensus'' \<mapsto> 2, ''distributed'' \<mapsto> 1 :: nat]"
  have a: "set [''raft''] \<inter> set [''onion''] = {}" by simp
  have b: "\<exists>t \<in> set [''raft'', ''consensus''] \<inter> set [''distributed'', ''consensus'', ''raft''].
         1 \<le> orZero (?df t) \<and> orZero (?df t) < 2"
    by simp
  have c: "\<forall>u \<in> set [''raft'', ''consensus''] \<inter> set [''distributed'', ''consensus'', ''raft''].
         orZero (?df u) \<le> 2"
    by simp
  have d: "0 < calculateBM25 [''raft'', ''consensus''] [''distributed'', ''consensus'', ''raft'']
             ?df 2 3"
    using b c
      bm25_zero_and_positive [of "[''raft'', ''consensus'']"
        "[''distributed'', ''consensus'', ''raft'']" ?df 2 3]
    by blast
  have e: "calculateBM25 [''raft''] [''onion''] [''raft'' \<mapsto> 1, ''onion'' \<mapsto> 1] 2 1 = 0"
    using a
      bm25_zero_and_positive [of "[''raft'']" "[''onion'']" "[''raft'' \<mapsto> 1, ''onion'' \<mapsto> 1]" 2 1]
    by blast
  show ?thesis using d e by simp
qed

text \<open>
  The claim as the specification states it fails. A query term that occurs in the
  document and whose document frequency is missing from the map (frequency 0, below
  \<open>N = 1\<close>) gives the score 0, not a positive one; and with a second shared term whose
  frequency (1000) exceeds \<open>N = 2\<close> the score is negative although the first shared
  term has frequency \<open>1 < N\<close>.
\<close>

theorem bm25_positive_counterexample:
  "''raft'' \<in> set [''raft''] \<inter> set [''raft'']
   \<and> orZero (Map.empty ''raft'') < 1
   \<and> calculateBM25 [''raft''] [''raft''] Map.empty 1 1 = 0
   \<and> ''ab'' \<in> set [''ab'', ''cd''] \<inter> set [''ab'', ''cd'']
   \<and> orZero ([''ab'' \<mapsto> 1, ''cd'' \<mapsto> 1000] ''ab'') < 2
   \<and> calculateBM25 [''ab'', ''cd''] [''ab'', ''cd''] [''ab'' \<mapsto> 1, ''cd'' \<mapsto> 1000] 2 2 < 0"
proof -
  have one: "calculateBM25 [''raft''] [''raft''] Map.empty 1 1 = 0"
    by (simp add: calculateBM25_def newSet_def setAdd_def bm25Step_def termFrequencies_def
        increment_def)
  have "calculateBM25 [''ab'', ''cd''] [''ab'', ''cd''] [''ab'' \<mapsto> 1, ''cd'' \<mapsto> 1000] 2 2
        = ln 2 + ln (2 / 667)"
    by (simp add: calculateBM25_def newSet_def setAdd_def bm25Step_def termFrequencies_def
        increment_def BM25_K1_def BM25_B_def)
  also have "\<dots> = ln (2 * (2 / 667))"
    by (subst ln_mult) simp_all
  also have "\<dots> < 0"
    by (rule ln_less_zero) simp_all
  finally show ?thesis using one by simp
qed

subsection \<open>Signals and composite utility\<close>

lemma normalizeImportance_range:
  "0 \<le> normalizeImportance x \<and> normalizeImportance x \<le> 1"
  by (simp add: normalizeImportance_def)

lemma fold_count_le:
  "fold (\<lambda>x (n::nat). if P x then n + 1 else n) xs k \<le> k + length xs"
proof (induction xs arbitrary: k)
  case Nil
  show ?case by simp
next
  case (Cons x xs)
  show ?case using Cons.IH [of "k + 1"] Cons.IH [of k] by simp
qed

lemma calculateTagRelevance_range:
  "0 \<le> calculateTagRelevance mt kk \<and> calculateTagRelevance mt kk \<le> 1"
proof (cases "length mt = 0 \<or> length kk = 0")
  case True
  then show ?thesis by (simp add: calculateTagRelevance_def)
next
  case False
  let ?m = "fold (\<lambda>keyword matches.
      if toLowerCase keyword \<in> set (newSet (map toLowerCase mt)) then matches + 1 else matches)
      kk (0::nat)"
  have "?m \<le> length kk" using fold_count_le [of _ kk 0] by simp
  then have "real ?m / real (length kk) \<le> 1"
    using False by (simp add: divide_le_eq)
  moreover have "0 \<le> real ?m / real (length kk)" by simp
  ultimately show ?thesis
    using False by (simp add: calculateTagRelevance_def Let_def)
qed

lemma calculateRecencyBoost_NaN:
  "parseDate ts = None \<Longrightarrow> calculateRecencyBoost parseDate ts 14 now = None"
  by (simp add: calculateRecencyBoost_def)

lemma calculateRecencyBoost_range:
  "parseDate ts = Some t \<Longrightarrow>
     \<exists>r. calculateRecencyBoost parseDate ts 14 now = Some r \<and> 0 < r \<and> r \<le> 1"
  by (simp add: calculateRecencyBoost_def Let_def)

lemma calculateCentrality_range:
  "0 \<le> calculateCentrality m kk \<and> calculateCentrality m kk \<le> 1"
  by (simp add: calculateCentrality_def Let_def)

lemma thompsonMapped_range: "0 \<le> thompsonMapped z \<and> thompsonMapped z \<le> 1"
  by (simp add: thompsonMapped_def)

lemma lexicalOf_nonneg: "0 \<le> lexicalOf b"
  by (simp add: lexicalOf_def)

lemma lexicalOf_le_1: "b \<le> exp 5 - 1 \<Longrightarrow> lexicalOf b \<le> 1"
proof (cases "b > 0")
  case False
  then show ?thesis by (simp add: lexicalOf_def)
next
  case True
  assume "b \<le> exp 5 - 1"
  then have "1 + b \<le> exp 5" by simp
  then have "ln (1 + b) \<le> ln (exp 5)"
    using True by (subst ln_le_cancel_iff) simp_all
  then have "ln (1 + b) \<le> 5" by simp
  with True show ?thesis by (simp add: lexicalOf_def)
qed

lemma calculateUtility_total:
  "fst (calculateUtility parseDate m k b th now)
   = (case calculateRecencyBoost parseDate (m_timestamp m) 14 now of
        None \<Rightarrow> None
      | Some r \<Rightarrow>
          Some (W_IMPORTANCE * normalizeImportance (m_importance m)
              + W_TAG_RELEVANCE * calculateTagRelevance (m_tags m) (k_keywords k)
              + W_LEXICAL * lexicalOf b
              + W_RECENCY * r
              + W_CENTRALITY * calculateCentrality m (k_keywords k)
              + W_THOMPSON * thompsonMapped th))"
  by (simp add: calculateUtility_def Let_def lexicalOf_def split: option.splits)

lemma calculateUtility_signals:
  "snd (calculateUtility parseDate m k b th now)
   = \<lparr> s_importance = normalizeImportance (m_importance m),
       s_tagRelevance = calculateTagRelevance (m_tags m) (k_keywords k),
       s_lexicalScore = lexicalOf b,
       s_recency = calculateRecencyBoost parseDate (m_timestamp m) 14 now,
       s_centrality = calculateCentrality m (k_keywords k),
       s_thompson = th \<rparr>"
  by (simp add: calculateUtility_def Let_def lexicalOf_def)

lemma weighted_sum_bounds:
  fixes a b c d e l :: real
  assumes "0 \<le> a" "a \<le> 1" "0 \<le> b" "b \<le> 1" "0 \<le> c" "c \<le> 1" "0 \<le> d" "d \<le> 1"
    "0 \<le> e" "e \<le> 1" "0 \<le> l"
  shows "0 \<le> W_IMPORTANCE * a + W_TAG_RELEVANCE * b + W_LEXICAL * l + W_RECENCY * c
              + W_CENTRALITY * d + W_THOMPSON * e"
    and "W_IMPORTANCE * a + W_TAG_RELEVANCE * b + W_LEXICAL * l + W_RECENCY * c
              + W_CENTRALITY * d + W_THOMPSON * e \<le> 0.7 + 0.3 * l"
  using assms
  unfolding W_IMPORTANCE_def W_TAG_RELEVANCE_def W_LEXICAL_def W_RECENCY_def
    W_CENTRALITY_def W_THOMPSON_def
  by simp_all

text \<open>
  C1, as the code has it. For every memory, kernel, BM25 score, Thompson sample, date
  parser and clock reading, the signals importance, tagRelevance and centrality that
  \<^verbatim>\<open>calculateUtility\<close> returns and the mapped Thompson value lie in \<open>[0,1]\<close>, and the
  lexical signal is at least 0. If the timestamp of the memory is a date, recency lies
  in \<open>[0,1]\<close> and the composite total is a number that is at least 0 and at most
  \<open>0.7 + 0.3 * lexical\<close>, hence at most 1 whenever the BM25 score is at most \<open>exp 5 - 1\<close>
  (about 147.4); the lexical signal \<open>ln (1 + bm25) / 5\<close> is not clamped. If the timestamp
  is no date, recency and the total are NaN.
\<close>

theorem calculateUtility_bounds:
  "0 \<le> s_importance (snd (calculateUtility parseDate m k b th now))
   \<and> s_importance (snd (calculateUtility parseDate m k b th now)) \<le> 1
   \<and> 0 \<le> s_tagRelevance (snd (calculateUtility parseDate m k b th now))
   \<and> s_tagRelevance (snd (calculateUtility parseDate m k b th now)) \<le> 1
   \<and> 0 \<le> s_centrality (snd (calculateUtility parseDate m k b th now))
   \<and> s_centrality (snd (calculateUtility parseDate m k b th now)) \<le> 1
   \<and> 0 \<le> thompsonMapped th \<and> thompsonMapped th \<le> 1
   \<and> 0 \<le> s_lexicalScore (snd (calculateUtility parseDate m k b th now))
   \<and> (parseDate (m_timestamp m) = None \<longrightarrow>
        s_recency (snd (calculateUtility parseDate m k b th now)) = None
        \<and> fst (calculateUtility parseDate m k b th now) = None)
   \<and> (parseDate (m_timestamp m) \<noteq> None \<longrightarrow>
        (\<exists>recency total.
           s_recency (snd (calculateUtility parseDate m k b th now)) = Some recency
           \<and> 0 \<le> recency \<and> recency \<le> 1
           \<and> fst (calculateUtility parseDate m k b th now) = Some total
           \<and> 0 \<le> total
           \<and> total \<le> 0.7 + 0.3 * s_lexicalScore (snd (calculateUtility parseDate m k b th now))
           \<and> (b \<le> exp 5 - 1 \<longrightarrow> total \<le> 1)))"
proof -
  note r = normalizeImportance_range [of "m_importance m"]
    calculateTagRelevance_range [of "m_tags m" "k_keywords k"]
    calculateCentrality_range [of m "k_keywords k"]
    thompsonMapped_range [of th] lexicalOf_nonneg [of b]
  have nan: "parseDate (m_timestamp m) = None \<longrightarrow>
        s_recency (snd (calculateUtility parseDate m k b th now)) = None
        \<and> fst (calculateUtility parseDate m k b th now) = None"
    by (simp add: calculateUtility_signals calculateUtility_total calculateRecencyBoost_NaN)
  have num: "parseDate (m_timestamp m) \<noteq> None \<longrightarrow>
        (\<exists>recency total.
           s_recency (snd (calculateUtility parseDate m k b th now)) = Some recency
           \<and> 0 \<le> recency \<and> recency \<le> 1
           \<and> fst (calculateUtility parseDate m k b th now) = Some total
           \<and> 0 \<le> total
           \<and> total \<le> 0.7 + 0.3 * s_lexicalScore (snd (calculateUtility parseDate m k b th now))
           \<and> (b \<le> exp 5 - 1 \<longrightarrow> total \<le> 1))"
  proof
    assume "parseDate (m_timestamp m) \<noteq> None"
    then obtain t where t0: "parseDate (m_timestamp m) = Some t" by auto
    from calculateRecencyBoost_range [of parseDate "m_timestamp m" t now] t0
    obtain rc where rc: "calculateRecencyBoost parseDate (m_timestamp m) 14 now = Some rc"
        "0 < rc" "rc \<le> 1"
      by blast
    let ?total = "W_IMPORTANCE * normalizeImportance (m_importance m)
              + W_TAG_RELEVANCE * calculateTagRelevance (m_tags m) (k_keywords k)
              + W_LEXICAL * lexicalOf b
              + W_RECENCY * rc
              + W_CENTRALITY * calculateCentrality m (k_keywords k)
              + W_THOMPSON * thompsonMapped th"
    have t: "fst (calculateUtility parseDate m k b th now) = Some ?total"
      by (simp add: calculateUtility_total rc(1))
    have lo: "0 \<le> ?total"
      by (rule weighted_sum_bounds(1)) (use r rc in simp_all)
    have hi: "?total \<le> 0.7 + 0.3 * lexicalOf b"
      by (rule weighted_sum_bounds(2)) (use r rc in simp_all)
    have one: "b \<le> exp 5 - 1 \<longrightarrow> ?total \<le> 1"
    proof
      assume "b \<le> exp 5 - 1"
      then have "lexicalOf b \<le> 1" by (rule lexicalOf_le_1)
      with hi show "?total \<le> 1" by simp
    qed
    have "s_recency (snd (calculateUtility parseDate m k b th now)) = Some rc"
      by (simp add: calculateUtility_signals rc(1))
    moreover have "s_lexicalScore (snd (calculateUtility parseDate m k b th now)) = lexicalOf b"
      by (simp add: calculateUtility_signals)
    ultimately show "\<exists>recency total.
           s_recency (snd (calculateUtility parseDate m k b th now)) = Some recency
           \<and> 0 \<le> recency \<and> recency \<le> 1
           \<and> fst (calculateUtility parseDate m k b th now) = Some total
           \<and> 0 \<le> total
           \<and> total \<le> 0.7 + 0.3 * s_lexicalScore (snd (calculateUtility parseDate m k b th now))
           \<and> (b \<le> exp 5 - 1 \<longrightarrow> total \<le> 1)"
      using rc(2,3) t lo hi one by auto
  qed
  show ?thesis
    using r nan num by (simp add: calculateUtility_signals)
qed

theorem calculateUtility_bounds_witness:
  "exampleParse ''2024-01-01T00:00:00.000Z'' \<noteq> None
   \<and> (3::real) \<le> exp 5 - 1
   \<and> (\<exists>recency total.
        s_recency (snd (calculateUtility exampleParse exampleMemory exampleKernel 3 0
          1704067260000)) = Some recency
        \<and> 0 \<le> recency \<and> recency \<le> 1
        \<and> fst (calculateUtility exampleParse exampleMemory exampleKernel 3 0 1704067260000)
            = Some total
        \<and> 0 \<le> total \<and> total \<le> 1)
   \<and> exampleParse ''not a date'' = None
   \<and> s_recency (snd (calculateUtility exampleParse
         (exampleMemory\<lparr> m_timestamp := ''not a date'' \<rparr>) exampleKernel 3 0 1704067260000))
       = None
   \<and> fst (calculateUtility exampleParse
         (exampleMemory\<lparr> m_timestamp := ''not a date'' \<rparr>) exampleKernel 3 0 1704067260000)
       = None"
proof -
  have "1 + 5 \<le> exp (5::real)" by (rule exp_ge_add_one_self)
  then have h: "(3::real) \<le> exp 5 - 1" by simp
  have d: "parseDate0 = exampleParse \<Longrightarrow> parseDate0 (m_timestamp exampleMemory) \<noteq> None"
    for parseDate0
    by (simp add: exampleParse_def exampleMemory_def)
  have n: "exampleParse (m_timestamp (exampleMemory\<lparr> m_timestamp := ''not a date'' \<rparr>)) = None"
    by (simp add: exampleParse_def)
  from calculateUtility_bounds
    [of exampleParse exampleMemory exampleKernel 3 0 1704067260000] d [OF refl] h
  have a: "\<exists>recency total.
        s_recency (snd (calculateUtility exampleParse exampleMemory exampleKernel 3 0
          1704067260000)) = Some recency
        \<and> 0 \<le> recency \<and> recency \<le> 1
        \<and> fst (calculateUtility exampleParse exampleMemory exampleKernel 3 0 1704067260000)
            = Some total
        \<and> 0 \<le> total \<and> total \<le> 1"
    by blast
  from calculateUtility_bounds
    [of exampleParse "exampleMemory\<lparr> m_timestamp := ''not a date'' \<rparr>" exampleKernel 3 0
      1704067260000] n
  have b: "s_recency (snd (calculateUtility exampleParse
         (exampleMemory\<lparr> m_timestamp := ''not a date'' \<rparr>) exampleKernel 3 0 1704067260000))
       = None
     \<and> fst (calculateUtility exampleParse
         (exampleMemory\<lparr> m_timestamp := ''not a date'' \<rparr>) exampleKernel 3 0 1704067260000)
       = None"
    by blast
  have "exampleParse ''2024-01-01T00:00:00.000Z'' \<noteq> None"
    "exampleParse ''not a date'' = None"
    by (simp_all add: exampleParse_def)
  with a b h show ?thesis by blast
qed

lemma exp_5_less_251: "exp (5::real) < 251"
proof -
  have "exp (5::real) = exp 1 ^ 5"
    using exp_of_nat_mult [of 5 "1::real"] by simp
  also have "\<dots> \<le> 3 ^ 5"
    by (rule power_mono) (simp_all add: exp_le)
  also have "\<dots> < (251::real)" by simp
  finally show ?thesis .
qed

text \<open>
  The claim as the specification states it fails in two ways. First, for the composite
  total: a memory of importance 10 whose tag is the only keyword of the kernel, created
  at the instant of the call and holding ten associations, scored with a BM25 score of
  250 and a Thompson sample of 1, has every bounded signal at 1 and the lexical signal
  \<open>ln 251 / 5 > 1\<close>; its total \<open>0.7 + 0.3 * ln 251 / 5\<close> exceeds 1. Second, for a memory
  whose timestamp string is no date: its recency and its total are NaN.
\<close>

theorem calculateUtility_total_counterexample:
  "(0::real) \<le> 250
   \<and> (\<exists>total. fst (calculateUtility exampleParse
        \<lparr> m_id = ''A'', m_content = ''distributed consensus raft'', m_tags = [''systems''],
          m_importance = 10, m_timestamp = ''2024-01-01T00:00:00.000Z'',
          m_associations = Some [''b1'', ''b2'', ''b3'', ''b4'', ''b5'', ''b6'', ''b7'', ''b8'',
            ''b9'', ''b10''],
          m_episodeId = None \<rparr>
        \<lparr> k_id = ''k'', k_name = ''q'', k_prompt = ''raft consensus algorithm'',
          k_keywords = [''systems''] \<rparr>
        250 1 1704067200000) = Some total \<and> 1 < total)
   \<and> s_recency (snd (calculateUtility exampleParse
        \<lparr> m_id = ''B'', m_content = ''cooking recipes onion'', m_tags = [''systems''],
          m_importance = 5, m_timestamp = ''not a date'', m_associations = None,
          m_episodeId = None \<rparr>
        \<lparr> k_id = ''k'', k_name = ''q'', k_prompt = ''raft consensus algorithm'',
          k_keywords = [''systems''] \<rparr>
        0 0 1704067200000)) = None
   \<and> fst (calculateUtility exampleParse
        \<lparr> m_id = ''B'', m_content = ''cooking recipes onion'', m_tags = [''systems''],
          m_importance = 5, m_timestamp = ''not a date'', m_associations = None,
          m_episodeId = None \<rparr>
        \<lparr> k_id = ''k'', k_name = ''q'', k_prompt = ''raft consensus algorithm'',
          k_keywords = [''systems''] \<rparr>
        0 0 1704067200000) = None"
proof -
  have i: "normalizeImportance 10 = 1"
    by (simp add: normalizeImportance_def)
  have t: "calculateTagRelevance [''systems''] [''systems''] = 1"
    by (simp add: calculateTagRelevance_def newSet_def setAdd_def)
  have r: "calculateRecencyBoost exampleParse ''2024-01-01T00:00:00.000Z'' 14 1704067200000
           = Some 1"
    by (simp add: calculateRecencyBoost_def exampleParse_def)
  have c: "calculateCentrality
        \<lparr> m_id = ''A'', m_content = ''distributed consensus raft'', m_tags = [''systems''],
          m_importance = 10, m_timestamp = ''2024-01-01T00:00:00.000Z'',
          m_associations = Some [''b1'', ''b2'', ''b3'', ''b4'', ''b5'', ''b6'', ''b7'', ''b8'',
            ''b9'', ''b10''],
          m_episodeId = None \<rparr> [''systems''] = 1"
    by (simp add: calculateCentrality_def newSet_def setAdd_def)
  have z: "thompsonMapped 1 = 1"
    by (simp add: thompsonMapped_def)
  have "ln (exp 5) < ln (251::real)"
    by (subst ln_less_cancel_iff) (simp_all add: exp_5_less_251)
  then have l: "1 < lexicalOf 250"
    by (simp add: lexicalOf_def)
  have first: "\<exists>total. fst (calculateUtility exampleParse
        \<lparr> m_id = ''A'', m_content = ''distributed consensus raft'', m_tags = [''systems''],
          m_importance = 10, m_timestamp = ''2024-01-01T00:00:00.000Z'',
          m_associations = Some [''b1'', ''b2'', ''b3'', ''b4'', ''b5'', ''b6'', ''b7'', ''b8'',
            ''b9'', ''b10''],
          m_episodeId = None \<rparr>
        \<lparr> k_id = ''k'', k_name = ''q'', k_prompt = ''raft consensus algorithm'',
          k_keywords = [''systems''] \<rparr>
        250 1 1704067200000) = Some total \<and> 1 < total"
    using l by (simp add: calculateUtility_total i t r c z W_IMPORTANCE_def W_TAG_RELEVANCE_def
        W_LEXICAL_def W_RECENCY_def W_CENTRALITY_def W_THOMPSON_def)
  have n: "calculateRecencyBoost exampleParse ''not a date'' 14 1704067200000 = None"
    by (simp add: calculateRecencyBoost_def exampleParse_def)
  show ?thesis
    using first by (simp add: calculateUtility_total calculateUtility_signals n)
qed

subsection \<open>Diversity selector\<close>

lemma fold_bestStep_range:
  "fst (fold (bestStep lam sel rem) [0 ..< n] (b, s)) = b
   \<or> fst (fold (bestStep lam sel rem) [0 ..< n] (b, s)) < n"
proof (induction n)
  case 0
  show ?case by simp
next
  case (Suc n)
  then show ?case
    by (auto simp add: bestStep_def Let_def)
qed

lemma findBest_less: "rem \<noteq> [] \<Longrightarrow> findBest lam sel rem < length rem"
  using fold_bestStep_range [of lam sel rem "length rem" 0 None]
  by (auto simp add: findBest_def)

lemma mset_removeAt:
  "i < length xs \<Longrightarrow> mset xs = add_mset (xs ! i) (mset (removeAt i xs))"
proof -
  assume "i < length xs"
  then have "xs = take i xs @ xs ! i # drop (Suc i) xs"
    by (rule id_take_nth_drop)
  then have "mset xs = mset (take i xs @ xs ! i # drop (Suc i) xs)" by simp
  then show ?thesis by (simp add: removeAt_def)
qed

lemma length_removeAt: "i < length xs \<Longrightarrow> length (removeAt i xs) = length xs - 1"
  by (auto simp add: removeAt_def)

lemma mmrLoop_result:
  "\<exists>picked. mmrLoop lam limit sel rem = sel @ picked
     \<and> mset picked \<subseteq># mset rem
     \<and> length picked = min (limit - length sel) (length rem)"
proof (induction lam limit sel rem rule: mmrLoop.induct)
  case (1 lam limit sel rem)
  show ?case
  proof (cases "length rem > 0 \<and> length sel < limit")
    case False
    then show ?thesis by (subst mmrLoop.simps) auto
  next
    case True
    let ?i = "findBest lam sel rem"
    have i: "?i < length rem" using True by (simp add: findBest_less)
    from "1.IH" [OF True refl]
    obtain picked where p: "mmrLoop lam limit (sel @ [rem ! ?i]) (removeAt ?i rem)
          = (sel @ [rem ! ?i]) @ picked"
        "mset picked \<subseteq># mset (removeAt ?i rem)"
        "length picked = min (limit - length (sel @ [rem ! ?i])) (length (removeAt ?i rem))"
      by blast
    have eq: "mmrLoop lam limit sel rem = sel @ (rem ! ?i # picked)"
      using True p(1) by (subst mmrLoop.simps) (simp add: Let_def)
    have "mset (rem ! ?i # picked) \<subseteq># mset rem"
      using p(2) by (simp add: mset_removeAt [OF i])
    moreover have "length (rem ! ?i # picked) = min (limit - length sel) (length rem)"
      using p(3) True i by (simp add: length_removeAt) linarith
    ultimately show ?thesis using eq by blast
  qed
qed

lemma distinct_mset_subset:
  assumes "mset ys \<subseteq># mset xs" "distinct xs"
  shows "distinct ys"
proof -
  have "count (mset ys) a \<le> 1" for a
  proof -
    have "count (mset ys) a \<le> count (mset xs) a"
      using assms(1) by (rule mset_subset_eq_count)
    also have "\<dots> \<le> 1"
      using assms(2) by (simp add: distinct_count_atmost_1)
    finally show ?thesis .
  qed
  then show ?thesis
    unfolding distinct_count_atmost_1
    by (metis count_mset_0_iff le_neq_implies_less less_one nat_less_le not_in_iff set_mset_mset
        le_antisym One_nat_def Suc_leI gr0I)
qed

lemma distinct_map_mset_subset:
  assumes "mset ys \<subseteq># mset xs" "distinct (map f xs)"
  shows "distinct (map f ys)"
proof -
  have "image_mset f (mset ys) \<subseteq># image_mset f (mset xs)"
    using assms(1) by (rule image_mset_subseteq_mono)
  then have "mset (map f ys) \<subseteq># mset (map f xs)" by simp
  then show ?thesis using assms(2) by (rule distinct_mset_subset)
qed

lemma mmrScore_lambda_one: "mmrScore 1 sel c = i_score c"
  by (simp add: mmrScore_def)

lemma fold_bestStep_sorted:
  assumes "\<forall>i \<le> n. i_score (rem ! i) \<le> i_score (rem ! 0)"
  shows "fold (bestStep 1 sel rem) [0 ..< Suc n] (0, None) = (0, Some (i_score (rem ! 0)))"
  using assms
proof (induction n)
  case 0
  show ?case by (simp add: bestStep_def mmrScore_lambda_one)
next
  case (Suc n)
  then have ih: "fold (bestStep 1 sel rem) [0 ..< Suc n] (0, None)
      = (0, Some (i_score (rem ! 0)))" by simp
  have le: "i_score (rem ! Suc n) \<le> i_score (rem ! 0)" using Suc.prems by simp
  have "[0 ..< Suc (Suc n)] = [0 ..< Suc n] @ [Suc n]" by simp
  then have "fold (bestStep 1 sel rem) [0 ..< Suc (Suc n)] (0, None)
      = bestStep 1 sel rem (Suc n) (fold (bestStep 1 sel rem) [0 ..< Suc n] (0, None))"
    by (simp only: fold_append fold_simps comp_apply)
  also have "\<dots> = bestStep 1 sel rem (Suc n) (0, Some (i_score (rem ! 0)))"
    by (simp only: ih)
  also have "\<dots> = (0, Some (i_score (rem ! 0)))"
    using le by (simp add: bestStep_def mmrScore_lambda_one)
  finally show ?case .
qed

lemma findBest_sorted:
  assumes "rem \<noteq> []" "sorted (map (\<lambda>c. - i_score c) rem)"
  shows "findBest 1 sel rem = 0"
proof -
  obtain n where n: "length rem = Suc n"
    using assms(1) by (cases rem) auto
  have "\<forall>i \<le> n. i_score (rem ! i) \<le> i_score (rem ! 0)"
  proof (intro allI impI)
    fix i assume "i \<le> n"
    then have "i < length (map (\<lambda>c. - i_score c) rem)" using n by simp
    from sorted_nth_mono [OF assms(2) _ this, of 0]
    show "i_score (rem ! i) \<le> i_score (rem ! 0)" using n \<open>i \<le> n\<close> by simp
  qed
  from fold_bestStep_sorted [OF this, of sel] show ?thesis
    by (simp add: findBest_def n)
qed

lemma mmrLoop_lambda_one:
  "sorted (map (\<lambda>c. - i_score c) rem) \<Longrightarrow>
     mmrLoop 1 limit sel rem = sel @ take (limit - length sel) rem"
proof (induction rem arbitrary: sel)
  case Nil
  show ?case by (subst mmrLoop.simps) simp
next
  case (Cons x xs)
  show ?case
  proof (cases "length sel < limit")
    case False
    then show ?thesis by (subst mmrLoop.simps) simp
  next
    case True
    have b: "findBest 1 sel (x # xs) = 0"
      using Cons.prems by (intro findBest_sorted) simp_all
    have s: "sorted (map (\<lambda>c. - i_score c) xs)" using Cons.prems by simp
    have "mmrLoop 1 limit sel (x # xs) = mmrLoop 1 limit (sel @ [x]) xs"
      using True by (subst mmrLoop.simps) (simp add: b removeAt_def)
    also have "\<dots> = (sel @ [x]) @ take (limit - length (sel @ [x])) xs"
      by (rule Cons.IH [OF s])
    also have "\<dots> = sel @ take (limit - length sel) (x # xs)"
    proof -
      obtain k where k: "limit - length sel = Suc k"
        using True by (cases "limit - length sel") simp_all
      then have "limit - length (sel @ [x]) = k" by simp
      then show ?thesis by (simp add: k)
    qed
    finally show ?thesis .
  qed
qed

text \<open>
  C5. For every candidate list, lambda and limit, \<^verbatim>\<open>selectByMMR\<close> returns each input item
  at most as often as the input holds it (so no duplicates: distinct candidates, or
  candidates with distinct ids, give a result with distinct items, or ids), and at most
  \<open>limit\<close> items. With lambda = 1 the result is the candidates in descending order of
  score, cut to \<open>limit\<close>; candidates of equal score keep their input order (shown on the
  uncut result).
\<close>

theorem selectByMMR_properties:
  "mset (selectByMMR cs lam limit) \<subseteq># mset cs
   \<and> length (selectByMMR cs lam limit) \<le> limit
   \<and> (distinct cs \<longrightarrow> distinct (selectByMMR cs lam limit))
   \<and> (distinct (map i_id cs) \<longrightarrow> distinct (map i_id (selectByMMR cs lam limit)))
   \<and> selectByMMR cs 1 limit = take limit (sort_key (\<lambda>c. - i_score c) cs)
   \<and> sorted (map (\<lambda>c. - i_score c) (selectByMMR cs 1 limit))
   \<and> (length cs \<le> limit \<longrightarrow>
        (\<forall>s. filter (\<lambda>c. i_score c = s) (selectByMMR cs 1 limit)
             = filter (\<lambda>c. i_score c = s) cs))"
proof -
  let ?sorted = "sort_key (\<lambda>c. - i_score c) cs"
  obtain picked where p: "mmrLoop lam limit [] ?sorted = [] @ picked"
      "mset picked \<subseteq># mset ?sorted"
      "length picked = min (limit - length ([] :: (real, 'a) ScoredItem_scheme list)) (length ?sorted)"
    using mmrLoop_result [of lam limit "[]" ?sorted] by blast
  have sub: "mset (selectByMMR cs lam limit) \<subseteq># mset cs"
    using p by (simp add: selectByMMR_def)
  have len: "length (selectByMMR cs lam limit) \<le> limit"
    using p by (simp add: selectByMMR_def)
  have one: "selectByMMR cs 1 limit = take limit ?sorted"
    by (simp add: selectByMMR_def mmrLoop_lambda_one)
  have srt: "sorted (map (\<lambda>c. - i_score c) (selectByMMR cs 1 limit))"
    unfolding one by (simp add: take_map [symmetric] sorted_wrt_take del: take_map)
  have stable: "length cs \<le> limit \<longrightarrow>
        (\<forall>s. filter (\<lambda>c. i_score c = s) (selectByMMR cs 1 limit)
             = filter (\<lambda>c. i_score c = s) cs)"
  proof (intro impI allI)
    fix s assume "length cs \<le> limit"
    then have "selectByMMR cs 1 limit = ?sorted" by (simp add: one)
    moreover have "filter (\<lambda>c. - i_score c = - s) ?sorted = filter (\<lambda>c. - i_score c = - s) cs"
      by (rule sort_key_stable)
    ultimately show "filter (\<lambda>c. i_score c = s) (selectByMMR cs 1 limit)
             = filter (\<lambda>c. i_score c = s) cs" by simp
  qed
  show ?thesis
    using sub len one srt stable distinct_mset_subset [OF sub]
      distinct_map_mset_subset [OF sub, of i_id]
    by blast
qed

theorem selectByMMR_properties_witness:
  "distinct [\<lparr> i_id = ''A'', i_content = ''cooking recipes onion'', i_score = 1 / 4 \<rparr>,
             \<lparr> i_id = ''B'', i_content = ''distributed consensus raft'', i_score = 1 / 2 \<rparr>]
   \<and> distinct (map i_id
         [\<lparr> i_id = ''A'', i_content = ''cooking recipes onion'', i_score = 1 / 4 \<rparr>,
          \<lparr> i_id = ''B'', i_content = ''distributed consensus raft'', i_score = 1 / 2 \<rparr>])
   \<and> length [\<lparr> i_id = ''A'', i_content = ''cooking recipes onion'', i_score = 1 / 4 \<rparr>,
             \<lparr> i_id = ''B'', i_content = ''distributed consensus raft'', i_score = 1 / 2 \<rparr>]
       \<le> (2::nat)
   \<and> distinct (map i_id (selectByMMR
         [\<lparr> i_id = ''A'', i_content = ''cooking recipes onion'', i_score = 1 / 4 \<rparr>,
          \<lparr> i_id = ''B'', i_content = ''distributed consensus raft'', i_score = 1 / 2 \<rparr>]
         (7 / 10) 2))
   \<and> selectByMMR
         [\<lparr> i_id = ''A'', i_content = ''cooking recipes onion'', i_score = 1 / 4 \<rparr>,
          \<lparr> i_id = ''B'', i_content = ''distributed consensus raft'', i_score = 1 / 2 \<rparr>]
         1 2
       = [\<lparr> i_id = ''B'', i_content = ''distributed consensus raft'', i_score = 1 / 2 \<rparr>,
          \<lparr> i_id = ''A'', i_content = ''cooking recipes onion'', i_score = 1 / 4 \<rparr>]"
proof -
  let ?cs = "[\<lparr> i_id = ''A'', i_content = ''cooking recipes onion'', i_score = 1 / 4 \<rparr>,
             \<lparr> i_id = ''B'', i_content = ''distributed consensus raft'', i_score = 1 / 2 \<rparr>]"
  have d: "distinct ?cs" "distinct (map i_id ?cs)" "length ?cs \<le> (2::nat)"
    by simp_all
  have "distinct (map i_id (selectByMMR ?cs (7 / 10) 2))"
    using d selectByMMR_properties [of ?cs "7 / 10" 2] by blast
  moreover have "selectByMMR ?cs 1 2 = take 2 (sort_key (\<lambda>c. - i_score c) ?cs)"
    using selectByMMR_properties [of ?cs 1 2] by blast
  ultimately show ?thesis using d by simp
qed

subsection \<open>Selector\<close>

lemma set_removeAt: "set (removeAt i xs) \<subseteq> set xs"
  by (auto simp add: removeAt_def dest: in_set_takeD in_set_dropD)

lemma uniform_index_less:
  assumes "0 < n"
  shows "nat \<lfloor>Rep_randomNumber u * real n\<rfloor> < n"
proof -
  have r: "0 \<le> Rep_randomNumber u" "Rep_randomNumber u < 1"
    using Rep_randomNumber [of u] by simp_all
  have "Rep_randomNumber u * real n < 1 * real n"
    using r(2) assms by (intro mult_strict_right_mono) simp_all
  then have "\<lfloor>Rep_randomNumber u * real n\<rfloor> < int n"
    by (simp add: floor_less_iff)
  moreover have "0 \<le> \<lfloor>Rep_randomNumber u * real n\<rfloor>"
    using r(1) by simp
  ultimately show ?thesis by linarith
qed

lemma sampleLoop_subset:
  "set (sampleLoop rng k result pool w pos) \<subseteq> set result \<union> set pool"
proof (induction rng k result pool w pos rule: sampleLoop.induct)
  case (1 rng k result pool w pos)
  show ?case
  proof (cases "length result < k \<and> length pool > 0")
    case False
    then show ?thesis by (subst sampleLoop.simps) auto
  next
    case True
    let ?total = "foldl (\<lambda>sum weight. nanPlus sum (nanMax0 weight)) (Some 0) w"
    show ?thesis
    proof (cases "?total = Some 0")
      case zero: True
      let ?idx = "nat \<lfloor>Rep_randomNumber (rng pos) * real (length pool)\<rfloor>"
      have i: "?idx < length pool" using True by (simp add: uniform_index_less)
      have "set (sampleLoop rng k (result @ [pool ! ?idx]) (removeAt ?idx pool)
              (removeAt ?idx w) (pos + 1))
            \<subseteq> set (result @ [pool ! ?idx]) \<union> set (removeAt ?idx pool)"
        by (rule "1.IH"(1) [OF True refl zero refl])
      also have "\<dots> \<subseteq> set result \<union> set pool"
        using i set_removeAt [of ?idx pool] by auto
      finally show ?thesis
        using True zero by (subst sampleLoop.simps) (simp add: Let_def)
    next
      case pos: False
      let ?random = "nanTimes (Rep_randomNumber (rng pos)) ?total"
      let ?idx0 = "scanWeights w ?random 0"
      let ?idx = "if ?idx0 \<ge> length pool then length pool - 1 else ?idx0"
      have i: "?idx < length pool" using True by auto
      have "set (sampleLoop rng k (result @ [pool ! ?idx]) (removeAt ?idx pool)
              (removeAt ?idx w) (pos + 1))
            \<subseteq> set (result @ [pool ! ?idx]) \<union> set (removeAt ?idx pool)"
        by (rule "1.IH"(2) [OF True refl pos refl refl refl])
      also have "\<dots> \<subseteq> set result \<union> set pool"
        using i set_removeAt [of ?idx pool] by (auto simp del: One_nat_def)
      finally show ?thesis
        using True pos by (subst sampleLoop.simps) (simp add: Let_def)
    qed
  qed
qed

lemma weightedSample_subset: "set (weightedSample items weights k rng pos) \<subseteq> set items"
  using sampleLoop_subset [of rng k "[]" items weights pos]
  by (simp add: weightedSample_def)

lemma selectByMMR_subset: "set (selectByMMR cs lam limit) \<subseteq> set cs"
proof -
  obtain picked where "mmrLoop lam limit [] (sort_key (\<lambda>c. - i_score c) cs) = [] @ picked"
      "mset picked \<subseteq># mset (sort_key (\<lambda>c. - i_score c) cs)"
    using mmrLoop_result [of lam limit "[]" "sort_key (\<lambda>c. - i_score c) cs"] by blast
  then have "mset (selectByMMR cs lam limit) \<subseteq># mset cs"
    by (simp add: selectByMMR_def)
  then have "set_mset (mset (selectByMMR cs lam limit)) \<subseteq> set_mset (mset cs)"
    by (rule set_mset_mono)
  then show ?thesis by simp
qed

lemma scoreLoop_elem:
  "x \<in> set (fst (scoreLoop pd cs k rt opts now rng todo scored pos)) \<Longrightarrow>
     x \<in> set scored
     \<or> (\<exists>j < length todo. x = scoreCandidate pd cs k rt opts now rng (todo ! j) (pos + 2 * j))"
proof (induction todo arbitrary: scored pos)
  case Nil
  then show ?case by simp
next
  case (Cons m todo)
  from Cons.prems
  have "x \<in> set (fst (scoreLoop pd cs k rt opts now rng todo
          (scored @ [scoreCandidate pd cs k rt opts now rng m pos]) (pos + 2)))"
    by simp
  from Cons.IH [OF this]
  consider "x \<in> set scored" | "x = scoreCandidate pd cs k rt opts now rng m pos"
    | j where "j < length todo"
        "x = scoreCandidate pd cs k rt opts now rng (todo ! j) (pos + 2 + 2 * j)"
    by auto
  then show ?case
  proof cases
    case 1
    then show ?thesis by simp
  next
    case 2
    then have "0 < length (m # todo)
        \<and> x = scoreCandidate pd cs k rt opts now rng ((m # todo) ! 0) (pos + 2 * 0)" by simp
    then show ?thesis by blast
  next
    case 3
    then have "Suc j < length (m # todo)
        \<and> x = scoreCandidate pd cs k rt opts now rng ((m # todo) ! Suc j) (pos + 2 * Suc j)"
      by (simp add: add.assoc)
    then show ?thesis by blast
  qed
qed

lemma scoreCandidate_fields:
  "i_memory (scoreCandidate pd cs k rt opts now rng m pos) = m"
  "s_thompson (i_signals (scoreCandidate pd cs k rt opts now rng m pos))
     = thompsonSample (mu (ratingOf rt m k now)) (sigma (ratingOf rt m k now)) rng pos"
  "i_score (scoreCandidate pd cs k rt opts now rng m pos)
     = fst (calculateUtility pd m k
         (calculateBM25 (queryTokensOf k opts) (tokenize (m_content m))
            (buildDocumentFrequencies (map m_content cs)) (length cs) (avgDocLengthOf cs))
         (thompsonSample (mu (ratingOf rt m k now)) (sigma (ratingOf rt m k now)) rng pos)
         now)"
  by (simp_all add: scoreCandidate_def Let_def split_beta)

lemma nanScore_numberScore: "numberScore x = Some y \<Longrightarrow> nanScore y = x"
  by (cases x) (auto simp add: numberScore_def nanScore_def split: option.splits)

lemma those_map_inverse:
  assumes "\<And>x y. f x = Some y \<Longrightarrow> g y = x"
  shows "those (map f xs) = Some ys \<Longrightarrow> map g ys = xs"
proof (induction xs arbitrary: ys)
  case Nil
  then show ?case by simp
next
  case (Cons x xs)
  then show ?case
    by (auto simp add: assms split: option.splits)
qed

lemma those_map_defined:
  "(\<And>x. x \<in> set xs \<Longrightarrow> f x \<noteq> None) \<Longrightarrow> \<exists>ys. those (map f xs) = Some ys"
  by (induction xs) (auto split: option.splits)

lemma selectByMMR_NaN_subset:
  assumes "selectByMMR_NaN cs lam limit = Result out"
  shows "set out \<subseteq> set cs"
proof (cases "those (map numberScore cs)")
  case None
  with assms have "out = take limit cs"
    by (simp add: selectByMMR_NaN_def split: if_splits)
  then show ?thesis by (simp add: set_take_subset)
next
  case (Some numbered)
  with assms have out: "out = map nanScore (selectByMMR numbered lam limit)"
    by (simp add: selectByMMR_NaN_def)
  have inv: "map nanScore numbered = cs"
    using Some by (rule those_map_inverse [rotated]) (rule nanScore_numberScore)
  have "set (selectByMMR numbered lam limit) \<subseteq> set numbered"
    by (rule selectByMMR_subset)
  then have "nanScore ` set (selectByMMR numbered lam limit) \<subseteq> nanScore ` set numbered"
    by (rule image_mono)
  then show ?thesis
    using inv by (simp add: out) (metis set_map)
qed

lemma selectMemories_elem:
  assumes "selectMemories pd ms k rt limit opts now rng = Result out" "r \<in> set out"
  shows "\<exists>j < length (candidatesOf ms k opts).
           r = toSelectedMemory (scoreCandidate pd (candidatesOf ms k opts) k rt opts now rng
                 (candidatesOf ms k opts ! j) (2 * j))"
proof -
  let ?cs = "candidatesOf ms k opts"
  let ?sl = "scoreLoop pd ?cs k rt opts now rng ?cs [] 0"
  let ?ws = "weightedSample (fst ?sl) (map i_score (fst ?sl))
                  (min (limit * 3) (length (fst ?sl))) rng (snd ?sl)"
  from assms have ne: "ms \<noteq> []" "?cs \<noteq> []"
    by (auto simp add: selectMemories_def Let_def split: if_splits)
  with assms(1) obtain diverse where d: "selectByMMR_NaN ?ws 0.7 limit = Result diverse"
      "out = map toSelectedMemory diverse"
    by (auto simp add: selectMemories_def Let_def split_beta split: outcome.splits)
  from assms(2) d(2) obtain x where x: "r = toSelectedMemory x" "x \<in> set diverse"
    by auto
  have "set diverse \<subseteq> set ?ws"
    using d(1) by (rule selectByMMR_NaN_subset)
  also have "\<dots> \<subseteq> set (fst ?sl)"
    by (rule weightedSample_subset)
  finally have "x \<in> set (fst ?sl)"
    using x(2) by (rule subsetD)
  from scoreLoop_elem [OF this]
  obtain j where "j < length ?cs"
      "x = scoreCandidate pd ?cs k rt opts now rng (?cs ! j) (0 + 2 * j)"
    by auto
  then have "j < length ?cs
      \<and> r = toSelectedMemory (scoreCandidate pd ?cs k rt opts now rng (?cs ! j) (2 * j))"
    using x(1) by simp
  then show ?thesis by blast
qed

lemma scoreLoop_scores:
  "x \<in> set (fst (scoreLoop pd cs k rt opts now rng todo scored pos)) \<Longrightarrow>
     x \<in> set scored \<or> (\<exists>m \<in> set todo. i_score x
        = fst (calculateUtility pd m k
            (calculateBM25 (queryTokensOf k opts) (tokenize (m_content m))
               (buildDocumentFrequencies (map m_content cs)) (length cs) (avgDocLengthOf cs))
            (s_thompson (i_signals x)) now))"
proof -
  assume "x \<in> set (fst (scoreLoop pd cs k rt opts now rng todo scored pos))"
  from scoreLoop_elem [OF this]
  show ?thesis
    by (auto simp add: scoreCandidate_fields)
qed

lemma selectMemories_defined:
  assumes "\<forall>m \<in> set (candidatesOf ms k opts). pd (m_timestamp m) \<noteq> None"
  shows "\<exists>out. selectMemories pd ms k rt limit opts now rng = Result out"
proof -
  let ?cs = "candidatesOf ms k opts"
  let ?sl = "scoreLoop pd ?cs k rt opts now rng ?cs [] 0"
  let ?ws = "weightedSample (fst ?sl) (map i_score (fst ?sl))
                  (min (limit * 3) (length (fst ?sl))) rng (snd ?sl)"
  have "numberScore x \<noteq> None" if "x \<in> set ?ws" for x
  proof -
    have "x \<in> set (fst ?sl)"
      using that weightedSample_subset by (rule subsetD [rotated])
    from scoreLoop_scores [OF this]
    obtain m where m: "m \<in> set ?cs" "i_score x
        = fst (calculateUtility pd m k
            (calculateBM25 (queryTokensOf k opts) (tokenize (m_content m))
               (buildDocumentFrequencies (map m_content ?cs)) (length ?cs) (avgDocLengthOf ?cs))
            (s_thompson (i_signals x)) now)"
      by auto
    from m(1) assms obtain t where "pd (m_timestamp m) = Some t" by auto
    from calculateRecencyBoost_range [of pd "m_timestamp m" t now] this
    have "i_score x \<noteq> None"
      by (auto simp add: m(2) calculateUtility_total)
    then show ?thesis
      by (auto simp add: numberScore_def split: option.splits)
  qed
  then obtain numbered where "those (map numberScore ?ws) = Some numbered"
    using those_map_defined [of ?ws numberScore] by blast
  then have "\<exists>diverse. selectByMMR_NaN ?ws 0.7 limit = Result diverse"
    by (simp add: selectByMMR_NaN_def)
  then show ?thesis
    by (auto simp add: selectMemories_def Let_def split_beta)
qed

lemma sampleLoop_singleton: "sampleLoop rng (Suc n) [] [x] w pos = [x]"
proof -
  have stop: "sampleLoop rng (Suc n) [x] [] w' p = [x]" for w' p
    by (subst sampleLoop.simps) simp
  have u: "nat \<lfloor>Rep_randomNumber (rng pos) * real (length [x])\<rfloor> < length [x]"
    by (rule uniform_index_less) simp
  then have u0: "nat \<lfloor>Rep_randomNumber (rng pos)\<rfloor> = 0" by simp
  have z: "(\<not> Suc 0 \<le> m) = (m = 0)" for m :: nat by auto
  show ?thesis
    by (subst sampleLoop.simps) (auto simp add: Let_def removeAt_def stop u0 z)
qed

lemma mmrLoop_singleton: "mmrLoop lam (Suc n) [] [x] = [x]"
proof -
  have "findBest lam [] [x] < length [x]" by (rule findBest_less) simp
  then have b: "findBest lam [] [x] = 0" by simp
  have stop: "mmrLoop lam (Suc n) [x] [] = [x]"
    by (subst mmrLoop.simps) simp
  show ?thesis
    by (subst mmrLoop.simps) (simp add: Let_def b removeAt_def stop)
qed

lemma selectByMMR_singleton: "selectByMMR [y] lam (Suc n) = [y]"
  by (simp add: selectByMMR_def mmrLoop_singleton)

lemma selectByMMR_NaN_singleton: "selectByMMR_NaN [x] lam (Suc n) = Result [x]"
proof (cases "numberScore x")
  case None
  then show ?thesis by (simp add: selectByMMR_NaN_def)
next
  case (Some y)
  then show ?thesis
    by (simp add: selectByMMR_NaN_def selectByMMR_singleton nanScore_numberScore)
qed

lemma selectMemories_single:
  assumes "candidatesOf ms k opts = [m]" "ms \<noteq> []"
  shows "selectMemories pd ms k rt (Suc n) opts now rng
         = Result [toSelectedMemory (scoreCandidate pd [m] k rt opts now rng m 0)]"
  using assms
  by (simp add: selectMemories_def Let_def weightedSample_def sampleLoop_singleton
      selectByMMR_NaN_singleton)

lemma exampleCandidates: "candidatesOf [exampleMemory] exampleKernel noOptions = [exampleMemory]"
  by (simp add: candidatesOf_def exampleMemory_def exampleKernel_def noOptions_def newSet_def
      setAdd_def)

lemma exampleRating:
  "mu (ratingOf Map.empty exampleMemory exampleKernel now) = 0"
  "sigma (ratingOf Map.empty exampleMemory exampleKernel now) = 1"
  by (simp_all add: ratingOf_def initializeRating_def)

lemma drawsHalf_sample: "thompsonSample 0 1 drawsHalf 0 = - 2"
proof -
  have e: "exp (- 2 :: real) < 1" by simp
  have u1: "Rep_randomNumber (drawsHalf 0) = exp (- 2)"
    using e by (simp add: drawsHalf_def randomOf.rep_eq)
  have u2: "Rep_randomNumber (drawsHalf (0 + 1)) = 1 / 2"
    by (simp add: drawsHalf_def randomOf.rep_eq)
  have o1: "orTiny (exp (- 2)) = exp (- 2)" by (simp add: orTiny_def)
  have o2: "orTiny (1 / 2) = 1 / 2" by (simp add: orTiny_def)
  have "sqrt (- 2 * ln (exp (- 2 :: real))) = sqrt 4" by simp
  also have "\<dots> = 2" using real_sqrt_abs [of 2] by simp
  finally have s: "sqrt (- 2 * ln (exp (- 2 :: real))) = 2" .
  have c: "cos (2 * pi * (1 / 2)) = - 1" by simp
  have "thompsonSample 0 1 drawsHalf 0
      = 0 + 1 * (sqrt (- 2 * ln (exp (- 2))) * cos (2 * pi * (1 / 2)))"
    by (simp only: thompsonSample_def Let_def boxMuller_def u1 u2 o1 o2)
  also have "\<dots> = 0 + 1 * (2 * (- 1))"
    by (simp only: s c)
  also have "\<dots> = - 2"
    by simp
  finally show ?thesis .
qed

lemma drawsEighth_sample: "thompsonSample 0 1 drawsEighth 0 = sqrt 2"
proof -
  have e: "exp (- 2 :: real) < 1" by simp
  have u1: "Rep_randomNumber (drawsEighth 0) = exp (- 2)"
    using e by (simp add: drawsEighth_def randomOf.rep_eq)
  have u2: "Rep_randomNumber (drawsEighth (0 + 1)) = 1 / 8"
    by (simp add: drawsEighth_def randomOf.rep_eq)
  have o1: "orTiny (exp (- 2)) = exp (- 2)" by (simp add: orTiny_def)
  have o2: "orTiny (1 / 8) = 1 / 8" by (simp add: orTiny_def)
  have "sqrt (- 2 * ln (exp (- 2 :: real))) = sqrt 4" by simp
  also have "\<dots> = 2" using real_sqrt_abs [of 2] by simp
  finally have s: "sqrt (- 2 * ln (exp (- 2 :: real))) = 2" .
  have "2 * pi * (1 / 8) = pi / 4" by simp
  then have c: "cos (2 * pi * (1 / 8)) = sqrt 2 / 2" by (simp only: cos_45)
  have "thompsonSample 0 1 drawsEighth 0
      = 0 + 1 * (sqrt (- 2 * ln (exp (- 2))) * cos (2 * pi * (1 / 8)))"
    by (simp only: thompsonSample_def Let_def boxMuller_def u1 u2 o1 o2)
  also have "\<dots> = 0 + 1 * (2 * (sqrt 2 / 2))"
    by (simp only: s c)
  also have "\<dots> = sqrt 2"
    by simp
  finally show ?thesis .
qed

lemma toSelectedMemory_fields:
  "sel_memoryId (toSelectedMemory x) = m_id (i_memory x)"
  "sel_signals (toSelectedMemory x) = i_signals x"
  "sel_score (toSelectedMemory x) = i_score x"
  by (simp_all add: toSelectedMemory_def)



subsection \<open>Learning loop\<close>

lemma length_sliceLast: "length (sliceLast n xs) = min n (length xs)"
  by (simp add: sliceLast_def)

lemma sliceLast_drop: "sliceLast n xs = drop (length xs - n) xs"
  by (simp add: sliceLast_def)

lemma sliceLast_suffix: "xs = take (length xs - n) xs @ sliceLast n xs"
  by (simp add: sliceLast_drop)

lemma sliceLast_append: "sliceLast n (sliceLast n xs @ ys) = sliceLast n (xs @ ys)"
proof (cases "length xs > n")
  case False
  then show ?thesis by (simp add: sliceLast_def)
next
  case True
  then have "length (drop (length xs - n) xs) = n" by simp
  then have "sliceLast n (drop (length xs - n) xs @ ys)
      = drop (n + length ys - n) (drop (length xs - n) xs @ ys)"
    by (simp add: sliceLast_drop)
  also have "\<dots> = drop (length ys) (drop (length xs - n) (xs @ ys))"
    using True by simp
  also have "\<dots> = drop (length (xs @ ys) - n) (xs @ ys)"
    using True by (simp add: add.commute)
  finally show ?thesis
    using True by (simp add: sliceLast_drop)
qed

text \<open>
  C8. \<^verbatim>\<open>saveInteractions\<close> stores \<^verbatim>\<open>interactions.slice(-1000)\<close>: for every interaction
  list, what is stored (and what \<^verbatim>\<open>loadInteractions\<close> then returns) is the list without
  its first \<open>length - 1000\<close> elements, that is its last \<open>min 1000 length\<close> elements in their
  original order; of 1500 written records the last 1000 remain. Saving after appending
  to what was loaded keeps the last 1000 of all records written so far. The ratings are
  untouched.
\<close>

theorem saveInteractions_keeps_recent:
  "saveInteractions p xs (Some s)
     = Inr (Some (s\<lparr> interactionsSetting :=
                      (interactionsSetting s)(p \<mapsto> Parsed (sliceLast 1000 xs)) \<rparr>))
   \<and> (\<exists>s'. saveInteractions p xs (Some s) = Inr (Some s')
          \<and> interactionsSetting s' p = Some (Parsed (sliceLast 1000 xs))
          \<and> loadInteractions p (Some s') = Inr (sliceLast 1000 xs)
          \<and> ratingsSetting s' = ratingsSetting s)
   \<and> sliceLast 1000 xs = drop (length xs - 1000) xs
   \<and> xs = take (length xs - 1000) xs @ sliceLast 1000 xs
   \<and> length (sliceLast 1000 xs) = min 1000 (length xs)
   \<and> sliceLast 1000 (sliceLast 1000 xs @ ys) = sliceLast 1000 (xs @ ys)
   \<and> saveInteractions p xs None = Inl StorageNotInitialized"
proof -
  have save: "saveInteractions p xs (Some s)
     = Inr (Some (s\<lparr> interactionsSetting :=
                      (interactionsSetting s)(p \<mapsto> Parsed (sliceLast 1000 xs)) \<rparr>))"
    by (simp add: saveInteractions_def)
  have load: "loadInteractions p (Some (s\<lparr> interactionsSetting :=
                      (interactionsSetting s)(p \<mapsto> Parsed (sliceLast 1000 xs)) \<rparr>))
      = Inr (sliceLast 1000 xs)"
    by (simp add: loadInteractions_def)
  have none: "saveInteractions p xs None = Inl StorageNotInitialized"
    by (simp add: saveInteractions_def)
  show ?thesis
    using save load none sliceLast_drop [of 1000 xs] sliceLast_suffix [of xs 1000]
      length_sliceLast [of 1000 xs] sliceLast_append [of 1000 xs ys]
    by simp
qed

lemma map_of_mapSet: "map_of (mapSet key v m) = (map_of m)(key \<mapsto> v)"
  by (induction m) (auto simp add: fun_eq_iff)

lemma usesAt_mapSet:
  "usesAt (mapSet key v m) key' = (if key' = key then uses v else usesAt m key')"
  by (simp add: usesAt_def mapGet_def map_of_mapSet)

lemma mapGet_mapSet_other: "key' \<noteq> key \<Longrightarrow> mapGet (mapSet key v m) key' = mapGet m key'"
  by (simp add: mapGet_def map_of_mapSet)

lemma feedbackStep_fields:
  "fb_interactions (feedbackStep k c clock uuids rw state)
     = fb_interactions state
       @ [\<lparr> int_id = uuids (fb_ids state), int_memoryId = fst rw, int_kernelId = k,
            int_contextId = c, int_reward = snd rw,
            int_timestamp = clock (fb_ticks state
              + (case mapGet (fb_ratings state) (makeRatingKey (fst rw) k) of
                   Some rating \<Rightarrow> 1 | None \<Rightarrow> 2)) \<rparr>]"
  "fb_ratings (feedbackStep k c clock uuids rw state)
     = mapSet (makeRatingKey (fst rw) k)
         (updateRating
            (case mapGet (fb_ratings state) (makeRatingKey (fst rw) k) of
               Some rating \<Rightarrow> rating
             | None \<Rightarrow> initializeRating (fst rw) k (clock (fb_ticks state)))
            (snd rw)
            (clock (fb_ticks state
              + (case mapGet (fb_ratings state) (makeRatingKey (fst rw) k) of
                   Some rating \<Rightarrow> 0 | None \<Rightarrow> 1))))
         (fb_ratings state)"
  by (simp_all add: feedbackStep_def Let_def split: option.splits)

lemma feedbackStep_uses:
  "usesAt (fb_ratings (feedbackStep k c clock uuids rw state)) key
     = usesAt (fb_ratings state) key + (if key = makeRatingKey (fst rw) k then 1 else 0)"
  by (simp add: feedbackStep_fields(2) usesAt_mapSet updateRating_fields)
     (simp add: usesAt_def initializeRating_def split: option.splits)

lemma fold_feedbackStep_uses:
  "usesAt (fb_ratings (fold (feedbackStep k c clock uuids) rewards state)) key
     = usesAt (fb_ratings state) key
       + count_list (map (\<lambda>rw. makeRatingKey (fst rw) k) rewards) key"
proof (induction rewards arbitrary: state)
  case Nil
  show ?case by simp
next
  case (Cons rw rewards)
  show ?case
    by (simp add: Cons.IH feedbackStep_uses)
qed

lemma fold_feedbackStep_frame:
  "key \<notin> (\<lambda>rw. makeRatingKey (fst rw) k) ` set rewards \<Longrightarrow>
     mapGet (fb_ratings (fold (feedbackStep k c clock uuids) rewards state)) key
       = mapGet (fb_ratings state) key"
proof (induction rewards arbitrary: state)
  case Nil
  show ?case by simp
next
  case (Cons rw rewards)
  then have "key \<noteq> makeRatingKey (fst rw) k"
    and rest: "key \<notin> (\<lambda>rw. makeRatingKey (fst rw) k) ` set rewards"
    by auto
  then show ?case
    by (simp add: Cons.IH [OF rest] feedbackStep_fields(2) mapGet_mapSet_other)
qed

lemma fold_feedbackStep_interactions:
  "\<exists>new. fb_interactions (fold (feedbackStep k c clock uuids) rewards state)
           = fb_interactions state @ new
         \<and> map int_memoryId new = map fst rewards
         \<and> map int_reward new = map snd rewards
         \<and> map int_kernelId new = map (\<lambda>rw. k) rewards
         \<and> map int_contextId new = map (\<lambda>rw. c) rewards"
proof (induction rewards arbitrary: state)
  case Nil
  show ?case by simp
next
  case (Cons rw rewards)
  let ?st = "feedbackStep k c clock uuids rw state"
  from Cons.IH [of ?st]
  obtain new where new: "fb_interactions (fold (feedbackStep k c clock uuids) rewards ?st)
           = fb_interactions ?st @ new"
      "map int_memoryId new = map fst rewards" "map int_reward new = map snd rewards"
      "map int_kernelId new = map (\<lambda>rw. k) rewards"
      "map int_contextId new = map (\<lambda>rw. c) rewards"
    by blast
  obtain x where x: "fb_interactions ?st = fb_interactions state @ [x]"
      "int_memoryId x = fst rw" "int_reward x = snd rw" "int_kernelId x = k"
      "int_contextId x = c"
    by (simp add: feedbackStep_fields(1))
  have "fb_interactions (fold (feedbackStep k c clock uuids) (rw # rewards) state)
      = fb_interactions state @ (x # new)"
    by (simp add: new(1) x(1))
  moreover have "map int_memoryId (x # new) = map fst (rw # rewards)"
    "map int_reward (x # new) = map snd (rw # rewards)"
    "map int_kernelId (x # new) = map (\<lambda>rw. k) (rw # rewards)"
    "map int_contextId (x # new) = map (\<lambda>rw. c) (rw # rewards)"
    by (simp_all add: new x)
  ultimately show ?case by blast
qed

lemma makeRatingKey_inject: "makeRatingKey m k = makeRatingKey m' k \<longleftrightarrow> m = m'"
  by (simp add: makeRatingKey_def)

lemma count_list_keys:
  "count_list (map (\<lambda>m. makeRatingKey m k) ids) (makeRatingKey m k) = count_list ids m"
  by (induction ids) (simp_all add: makeRatingKey_inject)

lemma loads_total:
  "\<exists>rs. loadRatings p (Some s) = Inr rs" "\<exists>is. loadInteractions p (Some s) = Inr is"
  by (simp_all add: loadRatings_def loadInteractions_def split: option.splits stored.splits)

lemma applyFeedback_initialized:
  assumes "loadRatings p (Some s) = Inr rs" "loadInteractions p (Some s) = Inr is"
  shows "applyFeedback p k c rewards clock uuids (Some s)
         = (let final = fold (feedbackStep k c clock uuids) rewards
                  \<lparr> fb_ratings = rs, fb_interactions = is, fb_ticks = 0, fb_ids = 0 \<rparr>
            in Inr (Some (s\<lparr> ratingsSetting :=
                              (ratingsSetting s)(p \<mapsto> Parsed (map snd (fb_ratings final))),
                            interactionsSetting :=
                              (interactionsSetting s)
                                (p \<mapsto> Parsed (sliceLast 1000 (fb_interactions final))) \<rparr>)))"
  by (simp add: applyFeedback_def assms Let_def saveRatings_def saveInteractions_def)

lemma applyFeedback_uninitialized:
  "applyFeedback p k c rewards clock uuids None = Inl StorageNotInitialized"
  by (simp add: applyFeedback_def loadRatings_def)

lemma loadRatings_table:
  "loadRatings p (Some s)
     = Inr (fold (\<lambda>rating m. mapSet (ratingKey rating) rating m)
              (storedArray (ratingsSetting s p)) [])"
  by (cases "ratingsSetting s p" rule: storedArray.cases)
     (simp_all add: loadRatings_def ratingKey_def)

lemma loadInteractions_array:
  "loadInteractions p (Some s) = Inr (storedArray (interactionsSetting s p))"
  by (cases "interactionsSetting s p" rule: storedArray.cases)
     (simp_all add: loadInteractions_def)

lemma map_of_loaded:
  "map_of (fold (\<lambda>rating m. mapSet (ratingKey rating) rating m) rs acc) key
     = (case storedRating rs key of Some r \<Rightarrow> Some r | None \<Rightarrow> map_of acc key)"
proof (induction rs arbitrary: acc)
  case Nil
  show ?case by simp
next
  case (Cons r rs)
  show ?case
    by (simp add: Cons.IH map_of_mapSet split: option.splits)
qed

text \<open>
  The invariant of a rating table: every entry sits under the key of its rating, and no
  key occurs twice.
\<close>

lemma map_fst_mapSet:
  "map fst (mapSet key v m) = (if key \<in> fst ` set m then map fst m else map fst m @ [key])"
  by (induction m) force+

lemma set_mapSet: "set (mapSet key v m) \<subseteq> insert (key, v) (set m)"
  by (induction m) (auto split: if_splits)

lemma keyed_mapSet:
  assumes "\<forall>e \<in> set m. fst e = ratingKey (snd e)" "distinct (map fst m)" "ratingKey v = key"
  shows "(\<forall>e \<in> set (mapSet key v m). fst e = ratingKey (snd e))
         \<and> distinct (map fst (mapSet key v m))"
proof
  show "\<forall>e \<in> set (mapSet key v m). fst e = ratingKey (snd e)"
    using assms(1,3) set_mapSet [of key v m] by auto
  show "distinct (map fst (mapSet key v m))"
    using assms(2) by (simp add: map_fst_mapSet)
qed

lemma keyed_loaded:
  assumes "\<forall>e \<in> set acc. fst e = ratingKey (snd e)" "distinct (map fst acc)"
  shows "(\<forall>e \<in> set (fold (\<lambda>rating m. mapSet (ratingKey rating) rating m) rs acc).
            fst e = ratingKey (snd e))
         \<and> distinct (map fst (fold (\<lambda>rating m. mapSet (ratingKey rating) rating m) rs acc))"
  using assms
proof (induction rs arbitrary: acc)
  case Nil
  then show ?case by simp
next
  case (Cons r rs)
  from keyed_mapSet [OF Cons.prems refl, of r]
  have a: "\<forall>e \<in> set (mapSet (ratingKey r) r acc). fst e = ratingKey (snd e)"
    "distinct (map fst (mapSet (ratingKey r) r acc))"
    by blast+
  from Cons.IH [OF a] show ?case by simp
qed

lemma ratingKey_updateRating: "ratingKey (updateRating r rw now) = ratingKey r"
  by (simp add: ratingKey_def updateRating_fields)

lemma keyed_feedbackStep:
  assumes "\<forall>e \<in> set (fb_ratings state). fst e = ratingKey (snd e)"
    "distinct (map fst (fb_ratings state))"
  shows "(\<forall>e \<in> set (fb_ratings (feedbackStep k c clock uuids rw state)).
            fst e = ratingKey (snd e))
         \<and> distinct (map fst (fb_ratings (feedbackStep k c clock uuids rw state)))"
proof -
  let ?key = "makeRatingKey (fst rw) k"
  let ?cur = "case mapGet (fb_ratings state) ?key of
               Some rating \<Rightarrow> rating
             | None \<Rightarrow> initializeRating (fst rw) k (clock (fb_ticks state))"
  have "ratingKey ?cur = ?key"
  proof (cases "mapGet (fb_ratings state) ?key")
    case None
    then show ?thesis by (simp add: ratingKey_def initializeRating_def)
  next
    case (Some r)
    then have "(?key, r) \<in> set (fb_ratings state)"
      by (simp add: mapGet_def map_of_SomeD)
    with assms(1) Some show ?thesis by auto
  qed
  then have "ratingKey (updateRating ?cur (snd rw) t) = ?key" for t
    by (simp add: ratingKey_updateRating)
  from keyed_mapSet [OF assms this]
  show ?thesis by (simp add: feedbackStep_fields(2))
qed

lemma keyed_fold_feedbackStep:
  assumes "\<forall>e \<in> set (fb_ratings state). fst e = ratingKey (snd e)"
    "distinct (map fst (fb_ratings state))"
  shows "(\<forall>e \<in> set (fb_ratings (fold (feedbackStep k c clock uuids) rewards state)).
            fst e = ratingKey (snd e))
         \<and> distinct (map fst (fb_ratings (fold (feedbackStep k c clock uuids) rewards state)))"
  using assms
proof (induction rewards arbitrary: state)
  case Nil
  then show ?case by simp
next
  case (Cons rw rewards)
  from keyed_feedbackStep [OF Cons.prems, of k c clock uuids rw]
  have a: "\<forall>e \<in> set (fb_ratings (feedbackStep k c clock uuids rw state)).
             fst e = ratingKey (snd e)"
    "distinct (map fst (fb_ratings (feedbackStep k c clock uuids rw state)))"
    by blast+
  from Cons.IH [OF a] show ?case by simp
qed

lemma storedRating_values:
  assumes "\<forall>e \<in> set m. fst e = ratingKey (snd e)" "distinct (map fst m)"
  shows "storedRating (map snd m) key = map_of m key"
  using assms
proof (induction m)
  case Nil
  show ?case by simp
next
  case (Cons e m)
  then have ih: "storedRating (map snd m) key = map_of m key" by simp
  show ?case
  proof (cases "fst e = key")
    case True
    with Cons.prems(2) have "key \<notin> fst ` set m" by auto
    then have "map_of m key = None" by (simp add: map_of_eq_None_iff)
    with True Cons.prems(1) ih show ?thesis by (cases e) auto
  next
    case False
    with Cons.prems(1) ih show ?thesis by (cases e) (auto split: option.splits)
  qed
qed

lemma distinct_keys_values:
  assumes "\<forall>e \<in> set m. fst e = ratingKey (snd e)" "distinct (map fst m)"
  shows "distinct (map ratingKey (map snd m))"
proof -
  have eq: "map (ratingKey \<circ> snd) m = map fst m"
    using assms(1) by (intro map_cong) simp_all
  show ?thesis
    using assms(2) by (simp only: map_map eq)
qed

lemma fold_feedbackStep_ids:
  "fb_ids (fold (feedbackStep k c clock uuids) rewards state) = fb_ids state + length rewards"
  by (induction rewards arbitrary: state) (simp_all add: feedbackStep_def Let_def split_beta)

lemma fold_feedbackStep_uuids:
  "map int_id (drop (length (fb_interactions state))
      (fb_interactions (fold (feedbackStep k c clock uuids) rewards state)))
   = map uuids [fb_ids state ..< fb_ids state + length rewards]"
proof (induction rewards arbitrary: state)
  case Nil
  show ?case by simp
next
  case (Cons rw rewards)
  let ?st = "feedbackStep k c clock uuids rw state"
  obtain new where new: "fb_interactions (fold (feedbackStep k c clock uuids) rewards ?st)
      = fb_interactions ?st @ new"
    using fold_feedbackStep_interactions [of k c clock uuids rewards ?st] by blast
  have ids: "fb_ids ?st = Suc (fb_ids state)"
    by (simp add: feedbackStep_def Let_def split_beta)
  have n: "map int_id new = map uuids [Suc (fb_ids state) ..< Suc (fb_ids state) + length rewards]"
    using Cons.IH [of ?st] by (simp add: new ids del: upt_Suc)
  have u: "[fb_ids state ..< fb_ids state + length (rw # rewards)]
      = fb_ids state # [Suc (fb_ids state) ..< Suc (fb_ids state) + length rewards]"
    by (simp add: upt_conv_Cons del: upt_Suc)
  have "drop (length (fb_interactions state))
      (fb_interactions (fold (feedbackStep k c clock uuids) (rw # rewards) state))
      = \<lparr> int_id = uuids (fb_ids state), int_memoryId = fst rw, int_kernelId = k,
            int_contextId = c, int_reward = snd rw,
            int_timestamp = clock (fb_ticks state
              + (case mapGet (fb_ratings state) (makeRatingKey (fst rw) k) of
                   Some rating \<Rightarrow> 1 | None \<Rightarrow> 2)) \<rparr> # new"
    by (simp add: new feedbackStep_fields(1))
  then show ?case
    by (simp only: u n list.map MemoryInteraction.simps)
qed

text \<open>
  C7. \<^verbatim>\<open>recordUsage(profileId, kernelId, contextId, memoryIds)\<close> has exactly the effect of
  \<^verbatim>\<open>applyFeedback\<close> with the reward \<open>+1\<close> for each memory id, in order (it fails as
  \<^verbatim>\<open>applyFeedback\<close> does when no storage is set). With storage set, the stored state
  after the call is the one before it with two settings of the profile replaced. The
  interactions setting holds the last 1000 of the interactions stored before followed by
  one new interaction per id: in the order of the ids, with reward \<open>+1\<close>, the given
  kernel and context, and the uuids drawn in order. The ratings setting holds an array
  with one rating per key in which the \<^verbatim>\<open>uses\<close> under the key of a memory id are those
  stored before (0 when none was stored) plus 1 for each occurrence of that id in
  \<^verbatim>\<open>memoryIds\<close>, and in which every other key holds the rating stored before;
  \<^verbatim>\<open>loadRatings\<close> reads this array back as that table.
\<close>

theorem recordUsage_refines_applyFeedback:
  "recordUsage p k c ids clock uuids st
     = applyFeedback p k c (map (\<lambda>m. (m, Positive)) ids) clock uuids st
   \<and> recordUsage p k c ids clock uuids None = Inl StorageNotInitialized
   \<and> (\<exists>after new table.
         recordUsage p k c ids clock uuids (Some s)
           = Inr (Some (s\<lparr> ratingsSetting := (ratingsSetting s)(p \<mapsto> Parsed after),
                           interactionsSetting :=
                             (interactionsSetting s)
                               (p \<mapsto> Parsed (sliceLast 1000
                                      (storedArray (interactionsSetting s p) @ new))) \<rparr>))
         \<and> map int_memoryId new = ids
         \<and> map int_reward new = map (\<lambda>m. Positive) ids
         \<and> map int_kernelId new = map (\<lambda>m. k) ids
         \<and> map int_contextId new = map (\<lambda>m. c) ids
         \<and> map int_id new = map uuids [0 ..< length ids]
         \<and> distinct (map ratingKey after)
         \<and> (\<forall>m. storedUses after (makeRatingKey m k)
                 = storedUses (storedArray (ratingsSetting s p)) (makeRatingKey m k)
                   + count_list ids m)
         \<and> (\<forall>key. key \<notin> (\<lambda>m. makeRatingKey m k) ` set ids \<longrightarrow>
                 storedRating after key = storedRating (storedArray (ratingsSetting s p)) key)
         \<and> loadRatings p
               (Some (s\<lparr> ratingsSetting := (ratingsSetting s)(p \<mapsto> Parsed after),
                         interactionsSetting :=
                           (interactionsSetting s)
                             (p \<mapsto> Parsed (sliceLast 1000
                                    (storedArray (interactionsSetting s p) @ new))) \<rparr>))
             = Inr table
         \<and> (\<forall>key. mapGet table key = storedRating after key))"
proof (intro conjI)
  show "recordUsage p k c ids clock uuids st
     = applyFeedback p k c (map (\<lambda>m. (m, Positive)) ids) clock uuids st"
    by (simp add: recordUsage_def)
  show "recordUsage p k c ids clock uuids None = Inl StorageNotInitialized"
    by (simp add: recordUsage_def applyFeedback_uninitialized)
  let ?rs0 = "storedArray (ratingsSetting s p)"
  let ?is0 = "storedArray (interactionsSetting s p)"
  let ?load = "\<lambda>rs. fold (\<lambda>rating m. mapSet (ratingKey rating) rating m) rs []"
  let ?rewards = "map (\<lambda>m. (m, Positive)) ids"
  let ?init = "\<lparr> fb_ratings = ?load ?rs0, fb_interactions = ?is0, fb_ticks = 0, fb_ids = 0 \<rparr>"
  let ?final = "fold (feedbackStep k c clock uuids) ?rewards ?init"
  let ?after = "map snd (fb_ratings ?final)"
  have l: "loadRatings p (Some s) = Inr (?load ?rs0)" "loadInteractions p (Some s) = Inr ?is0"
    by (rule loadRatings_table, rule loadInteractions_array)
  obtain new where new: "fb_interactions ?final = fb_interactions ?init @ new"
      "map int_memoryId new = map fst ?rewards" "map int_reward new = map snd ?rewards"
      "map int_kernelId new = map (\<lambda>rw. k) ?rewards"
      "map int_contextId new = map (\<lambda>rw. c) ?rewards"
    using fold_feedbackStep_interactions [of k c clock uuids ?rewards ?init] by blast
  have m: "map int_memoryId new = ids" "map int_reward new = map (\<lambda>m. Positive) ids"
      "map int_kernelId new = map (\<lambda>m. k) ids" "map int_contextId new = map (\<lambda>m. c) ids"
    using new(2-5) by (simp_all add: comp_def)
  have "map int_id (drop (length (fb_interactions ?init)) (fb_interactions ?final))
      = map uuids [fb_ids ?init ..< fb_ids ?init + length ?rewards]"
    by (rule fold_feedbackStep_uuids)
  then have uu: "map int_id new = map uuids [0 ..< length ids]"
    by (simp add: new(1))
  have res: "recordUsage p k c ids clock uuids (Some s)
             = Inr (Some (s\<lparr> ratingsSetting := (ratingsSetting s)(p \<mapsto> Parsed ?after),
                             interactionsSetting :=
                               (interactionsSetting s)
                                 (p \<mapsto> Parsed (sliceLast 1000 (?is0 @ new))) \<rparr>))"
    using new(1) by (simp add: recordUsage_def applyFeedback_initialized [OF l] Let_def)
  have inv0: "(\<forall>e \<in> set (fb_ratings ?init). fst e = ratingKey (snd e))
      \<and> distinct (map fst (fb_ratings ?init))"
    using keyed_loaded [of "[]" ?rs0] by simp
  then have inv: "\<forall>e \<in> set (fb_ratings ?final). fst e = ratingKey (snd e)"
      "distinct (map fst (fb_ratings ?final))"
    using keyed_fold_feedbackStep [of ?init k c clock uuids ?rewards] by blast+
  have sv: "storedRating ?after key = mapGet (fb_ratings ?final) key" for key
    unfolding mapGet_def using inv by (rule storedRating_values)
  have s0: "mapGet (?load ?rs0) key = storedRating ?rs0 key" for key
    by (simp add: mapGet_def map_of_loaded split: option.splits)
  have d: "distinct (map ratingKey ?after)"
    using inv by (rule distinct_keys_values)
  have keys: "map (\<lambda>rw. makeRatingKey (fst rw) k) ?rewards = map (\<lambda>m. makeRatingKey m k) ids"
    by (simp add: comp_def)
  have "usesAt (fb_ratings ?final) (makeRatingKey m k)
      = usesAt (fb_ratings ?init) (makeRatingKey m k) + count_list ids m" for m
    by (simp only: fold_feedbackStep_uses keys count_list_keys)
  then have u: "\<forall>m. storedUses ?after (makeRatingKey m k)
                 = storedUses ?rs0 (makeRatingKey m k) + count_list ids m"
    by (simp add: storedUses_def usesAt_def sv s0)
  have f: "\<forall>key. key \<notin> (\<lambda>m. makeRatingKey m k) ` set ids \<longrightarrow>
                 storedRating ?after key = storedRating ?rs0 key"
  proof (intro allI impI)
    fix key assume "key \<notin> (\<lambda>m. makeRatingKey m k) ` set ids"
    then have "key \<notin> (\<lambda>rw. makeRatingKey (fst rw) k) ` set ?rewards"
      by (simp add: image_image)
    from fold_feedbackStep_frame [OF this, of c clock uuids ?init]
    show "storedRating ?after key = storedRating ?rs0 key"
      by (simp add: sv s0)
  qed
  have re: "loadRatings p
               (Some (s\<lparr> ratingsSetting := (ratingsSetting s)(p \<mapsto> Parsed ?after),
                         interactionsSetting :=
                           (interactionsSetting s)
                             (p \<mapsto> Parsed (sliceLast 1000 (?is0 @ new))) \<rparr>))
             = Inr (?load ?after)"
    by (simp add: loadRatings_table)
  have rt: "\<forall>key. mapGet (?load ?after) key = storedRating ?after key"
    by (simp add: mapGet_def map_of_loaded split: option.splits)
  show "\<exists>after new table.
         recordUsage p k c ids clock uuids (Some s)
           = Inr (Some (s\<lparr> ratingsSetting := (ratingsSetting s)(p \<mapsto> Parsed after),
                           interactionsSetting :=
                             (interactionsSetting s)
                               (p \<mapsto> Parsed (sliceLast 1000
                                      (storedArray (interactionsSetting s p) @ new))) \<rparr>))
         \<and> map int_memoryId new = ids
         \<and> map int_reward new = map (\<lambda>m. Positive) ids
         \<and> map int_kernelId new = map (\<lambda>m. k) ids
         \<and> map int_contextId new = map (\<lambda>m. c) ids
         \<and> map int_id new = map uuids [0 ..< length ids]
         \<and> distinct (map ratingKey after)
         \<and> (\<forall>m. storedUses after (makeRatingKey m k)
                 = storedUses (storedArray (ratingsSetting s p)) (makeRatingKey m k)
                   + count_list ids m)
         \<and> (\<forall>key. key \<notin> (\<lambda>m. makeRatingKey m k) ` set ids \<longrightarrow>
                 storedRating after key = storedRating (storedArray (ratingsSetting s p)) key)
         \<and> loadRatings p
               (Some (s\<lparr> ratingsSetting := (ratingsSetting s)(p \<mapsto> Parsed after),
                         interactionsSetting :=
                           (interactionsSetting s)
                             (p \<mapsto> Parsed (sliceLast 1000
                                    (storedArray (interactionsSetting s p) @ new))) \<rparr>))
             = Inr table
         \<and> (\<forall>key. mapGet table key = storedRating after key)"
    apply (rule exI [of _ ?after])
    apply (rule exI [of _ new])
    apply (rule exI [of _ "?load ?after"])
    apply (intro conjI)
    apply (rule res)
    apply (rule m(1))
    apply (rule m(2))
    apply (rule m(3))
    apply (rule m(4))
    apply (rule uu)
    apply (rule d)
    apply (rule u)
    apply (rule f)
    apply (rule re)
    apply (rule rt)
    done
qed

theorem recordUsage_refines_applyFeedback_witness:
  "\<exists>after new.
     recordUsage ''p'' ''k'' ''c'' [''m1'', ''m2''] exampleClock exampleUuids (Some exampleStore)
       = Inr (Some (exampleStore\<lparr> ratingsSetting := [''p'' \<mapsto> Parsed after],
                                  interactionsSetting := [''p'' \<mapsto> Parsed new] \<rparr>))
     \<and> map int_memoryId new = [''m1'', ''m2'']
     \<and> map int_reward new = [Positive, Positive]
     \<and> map int_id new = [''uuid-0'', ''uuid-1'']
     \<and> storedUses (storedArray (ratingsSetting exampleStore ''p'')) (makeRatingKey ''m1'' ''k'') = 4
     \<and> storedUses after (makeRatingKey ''m1'' ''k'') = 5
     \<and> storedUses after (makeRatingKey ''m2'' ''k'') = 1
     \<and> ''m3::k'' \<notin> (\<lambda>m. makeRatingKey m ''k'') ` set [''m1'', ''m2'']
     \<and> storedRating after ''m3::k'' = None"
proof -
  have out: "''m3::k'' \<notin> (\<lambda>m. makeRatingKey m ''k'') ` set [''m1'', ''m2'']"
    by (simp add: makeRatingKey_def)
  have b1: "storedUses (storedArray (ratingsSetting exampleStore ''p''))
              (makeRatingKey ''m1'' ''k'') = 4"
    and b2: "storedUses (storedArray (ratingsSetting exampleStore ''p''))
              (makeRatingKey ''m2'' ''k'') = 0"
    and b3: "storedRating (storedArray (ratingsSetting exampleStore ''p'')) ''m3::k'' = None"
    and bi: "storedArray (interactionsSetting exampleStore ''p'') = []"
    by (simp_all add: exampleStore_def storedUses_def ratingKey_def makeRatingKey_def)
  from recordUsage_refines_applyFeedback
    [of "''p''" "''k''" "''c''" "[''m1'', ''m2'']" exampleClock exampleUuids None exampleStore,
      THEN conjunct2, THEN conjunct2]
  obtain after new where
      r: "recordUsage ''p'' ''k'' ''c'' [''m1'', ''m2''] exampleClock exampleUuids
                (Some exampleStore)
             = Inr (Some (exampleStore\<lparr> ratingsSetting :=
                               (ratingsSetting exampleStore)(''p'' \<mapsto> Parsed after),
                             interactionsSetting :=
                               (interactionsSetting exampleStore)
                                 (''p'' \<mapsto> Parsed (sliceLast 1000
                                    (storedArray (interactionsSetting exampleStore ''p'')
                                     @ new))) \<rparr>))"
      and n: "map int_memoryId new = [''m1'', ''m2'']"
         "map int_reward new = map (\<lambda>m. Positive) [''m1'', ''m2'']"
         "map int_id new = map exampleUuids [0 ..< length [''m1'', ''m2'']]"
      and u: "\<forall>m. storedUses after (makeRatingKey m ''k'')
                 = storedUses (storedArray (ratingsSetting exampleStore ''p''))
                     (makeRatingKey m ''k'')
                   + count_list [''m1'', ''m2''] m"
      and f: "\<forall>key. key \<notin> (\<lambda>m. makeRatingKey m ''k'') ` set [''m1'', ''m2'']
                 \<longrightarrow> storedRating after key
                     = storedRating (storedArray (ratingsSetting exampleStore ''p'')) key"
    by (elim exE conjE) (rule that; assumption)
  have "length (map int_memoryId new) = 2" by (simp only: n) simp
  then have len: "length new = 2" by simp
  have r': "recordUsage ''p'' ''k'' ''c'' [''m1'', ''m2''] exampleClock exampleUuids
                (Some exampleStore)
       = Inr (Some (exampleStore\<lparr> ratingsSetting := [''p'' \<mapsto> Parsed after],
                                  interactionsSetting := [''p'' \<mapsto> Parsed new] \<rparr>))"
    using r len by (simp add: bi sliceLast_def) (simp add: exampleStore_def)
  have u1: "storedUses after (makeRatingKey ''m1'' ''k'') = 5"
    using u [rule_format, of "''m1''"] by (simp add: b1)
  have u2: "storedUses after (makeRatingKey ''m2'' ''k'') = 1"
    using u [rule_format, of "''m2''"] by (simp add: b2)
  have f3: "storedRating after ''m3::k'' = None"
    using f [rule_format, OF out] by (simp add: b3)
  have n2: "map int_reward new = [Positive, Positive]" using n(2) by simp
  have n3: "map int_id new = [''uuid-0'', ''uuid-1'']"
    using n(3) by (simp add: exampleUuids_def upt_conv_Cons)
  show ?thesis
    by (rule exI [of _ after], rule exI [of _ new])
       (simp only: r' n(1) n2 n3 b1 u1 u2 out f3 simp_thms)
qed

end
